theory Spec2Isabelle
  imports Main
begin

section \<open>Messages of the game protocol\<close>

text \<open>
  The generated protocol module \<^verbatim>\<open>game_pb2\<close> is not part of the sources. The messages
  are modelled with the fields that \<^verbatim>\<open>src/main.py\<close> reads or writes. Coordinates, energy
  and player identifiers are Python integers. A message object is always truthy in Python
  (the message classes define neither \<^verbatim>\<open>__bool__\<close> nor \<^verbatim>\<open>__len__\<close>), so
  \<^verbatim>\<open>if lh_here:\<close> tests that the dictionary lookup did not return \<^verbatim>\<open>None\<close>.
\<close>

record Position =
  X :: int
  Y :: int

record Lighthouse =
  lh_Position :: Position
  lh_Owner :: int

record NewTurn =
  turn_Position :: Position
  turn_Energy :: int
  turn_Lighthouses :: "Lighthouse list"

datatype Action = PASS | MOVE | ATTACK | CONNECT

text \<open>A field of \<^verbatim>\<open>NewAction\<close> that the constructor call leaves out holds its default, 0.\<close>

record NewAction =
  Action :: Action
  Destination :: Position
  Energy :: int

section \<open>The bot's state\<close>

text \<open>\<^verbatim>\<open>BotGameTurn\<close> (lines 17-20): one entry of the turn history.\<close>

record BotGameTurn =
  turn :: NewTurn
  action :: NewAction

text \<open>
  \<^verbatim>\<open>BotGame\<close> (lines 23-30). A position inside the bot is a Python tuple \<^verbatim>\<open>(x, y)\<close>.
  \<^verbatim>\<open>visited\<close> is a \<^verbatim>\<open>deque(maxlen=3)\<close>, held as the list of its items from left to
  right. The type of the stored initial state is left open.
\<close>

type_synonym pos = "int \<times> int"

record 'i BotGame =
  player_num :: "int option"
  initial_state :: "'i option"
  turn_states :: "BotGameTurn list"
  visited :: "pos list"
  target :: "pos option"
  countT :: int

definition visited_maxlen :: nat where
  "visited_maxlen = 3"

definition BotGame_init :: "int option \<Rightarrow> 'i BotGame" where
  "BotGame_init pn =
     \<lparr>player_num = pn, initial_state = None, turn_states = [], visited = [],
      target = None, countT = 1\<rparr>"

section \<open>Python containers\<close>

text \<open>
  \<^verbatim>\<open>deque.append\<close> on a bounded deque: the item goes to the right end, and when the
  deque then holds more than \<^verbatim>\<open>maxlen\<close> items the leftmost one is dropped.
\<close>

definition deque_append :: "nat \<Rightarrow> 'a list \<Rightarrow> 'a \<Rightarrow> 'a list" where
  "deque_append maxlen d x =
     (let d' = d @ [x] in if length d' > maxlen then tl d' else d')"

text \<open>
  A Python dictionary keeps its keys in the order of their first insertion; storing under
  a key that is present replaces the value and leaves the key where it is.
\<close>

fun dict_set :: "('k \<times> 'v) list \<Rightarrow> 'k \<Rightarrow> 'v \<Rightarrow> ('k \<times> 'v) list" where
  "dict_set [] k v = [(k, v)]"
| "dict_set ((k', v') # d) k v =
     (if k' = k then (k, v) # d else (k', v') # dict_set d k v)"

definition dict_get :: "('k \<times> 'v) list \<Rightarrow> 'k \<Rightarrow> 'v option" where
  "dict_get d k = map_of d k"

definition dict_keys :: "('k \<times> 'v) list \<Rightarrow> 'k list" where
  "dict_keys d = map fst d"

text \<open>
  \<^verbatim>\<open>min(xs, key=f)\<close> on a non-empty list: the running best is replaced only by an item
  whose key is strictly smaller, so the first of several minimal items is returned.
\<close>

fun min_from :: "('a \<Rightarrow> int) \<Rightarrow> 'a \<Rightarrow> 'a list \<Rightarrow> 'a" where
  "min_from key best [] = best"
| "min_from key best (x # xs) =
     (if key x < key best then min_from key x xs else min_from key best xs)"

section \<open>The decision engine\<close>

text \<open>\<^verbatim>\<open>manhattan_distance\<close> (lines 32-33).\<close>

definition manhattan_distance :: "pos \<Rightarrow> pos \<Rightarrow> int" where
  "manhattan_distance a b = \<bar>fst a - fst b\<bar> + \<bar>snd a - snd b\<bar>"

text \<open>Line 40: the dictionary comprehension, one store per lighthouse in list order.\<close>

definition pos_of :: "Position \<Rightarrow> pos" where
  "pos_of p = (X p, Y p)"

definition lighthouses_of :: "NewTurn \<Rightarrow> (pos \<times> Lighthouse) list" where
  "lighthouses_of t =
     foldl (\<lambda>d lh. dict_set d (pos_of (lh_Position lh)) lh) [] (turn_Lighthouses t)"

text \<open>
  Lines 74-81: choose a new target if needed. \<^verbatim>\<open>not self.target\<close> holds only for
  \<^verbatim>\<open>None\<close>, a pair being truthy.
\<close>

definition choose_target :: "'i BotGame \<Rightarrow> pos \<Rightarrow> (pos \<times> Lighthouse) list \<Rightarrow> 'i BotGame" where
  "choose_target self my_pos lighthouses =
     (if target self = None \<or> the (target self) \<in> set (visited self) then
        (let unvisited = filter (\<lambda>p. p \<notin> set (visited self)) (dict_keys lighthouses)
         in case unvisited of
              p # ps \<Rightarrow> self\<lparr>target := Some (min_from (manhattan_distance my_pos) p ps)\<rparr>
            | [] \<Rightarrow> self\<lparr>target := None\<rparr>)
      else self)"

text \<open>Lines 84-96: move toward the target, or pass.\<close>

definition move_action :: "'i BotGame \<Rightarrow> int \<Rightarrow> int \<Rightarrow> NewAction" where
  "move_action self cx cy =
     (case target self of
        Some (tx, ty) \<Rightarrow>
          (let dx = (if tx = cx then 0 else if tx > cx then 1 else - 1);
               dy = (if ty = cy then 0 else if ty > cy then 1 else - 1)
           in \<lparr>Action = MOVE, Destination = \<lparr>X = cx + dx, Y = cy + dy\<rparr>, Energy = 0\<rparr>)
      | None \<Rightarrow> \<lparr>Action = PASS, Destination = \<lparr>X = cx, Y = cy\<rparr>, Energy = 0\<rparr>)"

text \<open>Lines 98-100: record the turn and count it.\<close>

definition record_turn :: "'i BotGame \<Rightarrow> NewTurn \<Rightarrow> NewAction \<Rightarrow> 'i BotGame" where
  "record_turn self t a =
     self\<lparr>turn_states := turn_states self @ [\<lparr>turn = t, action = a\<rparr>],
          countT := countT self + 1\<rparr>"

text \<open>
  \<^verbatim>\<open>new_turn_action\<close> (lines 35-100). The result is the returned action and the bot
  after the call. \<^verbatim>\<open>lh_here.Owner != self.player_num\<close> compares an integer with an
  integer or with \<^verbatim>\<open>None\<close>; the latter never equals an integer.
\<close>

definition new_turn_action :: "'i BotGame \<Rightarrow> NewTurn \<Rightarrow> NewAction \<times> 'i BotGame" where
  "new_turn_action self t =
     (let cx = X (turn_Position t); cy = Y (turn_Position t);
          my_pos = (cx, cy);
          lighthouses = lighthouses_of t;
          lh_here = dict_get lighthouses my_pos
      in case lh_here of
           Some lh \<Rightarrow>
             if Some (lh_Owner lh) \<noteq> player_num self then
               (let self1 = self\<lparr>visited := deque_append visited_maxlen (visited self) my_pos\<rparr>;
                    a = \<lparr>Action = ATTACK, Destination = \<lparr>X = cx, Y = cy\<rparr>,
                         Energy = turn_Energy t\<rparr>
                in (a, record_turn self1 t a))
             else
               (let self1 = self\<lparr>visited := deque_append visited_maxlen (visited self) my_pos\<rparr>;
                    self2 = choose_target self1 my_pos lighthouses;
                    a = move_action self2 cx cy
                in (a, record_turn self2 t a))
         | None \<Rightarrow>
             (let self2 = choose_target self my_pos lighthouses;
                  a = move_action self2 cx cy
              in (a, record_turn self2 t a)))"

text \<open>
  \<^verbatim>\<open>ClientServer.Turn\<close> (lines 181-186) hands every request to the one \<^verbatim>\<open>BotGame\<close>
  of the session; a game is the sequence of these calls.
\<close>

fun play :: "'i BotGame \<Rightarrow> NewTurn list \<Rightarrow> 'i BotGame" where
  "play self [] = self"
| "play self (t # ts) = play (snd (new_turn_action self t)) ts"

subsection \<open>The branches of a turn\<close>

text \<open>
  Line 41: the lighthouse that the dictionary holds for the bot's position. The dictionary
  has one value for each position: of several lighthouses that the observation lists at
  one position, the comprehension keeps the last one.
\<close>

definition lh_here :: "NewTurn \<Rightarrow> Lighthouse option" where
  "lh_here t = dict_get (lighthouses_of t) (pos_of (turn_Position t))"

text \<open>Lines 43 and 59: the test that guards the attack branch.\<close>

definition contested :: "'i BotGame \<Rightarrow> NewTurn \<Rightarrow> bool" where
  "contested self t =
     (case lh_here t of Some lh \<Rightarrow> Some (lh_Owner lh) \<noteq> player_num self | None \<Rightarrow> False)"

text \<open>
  Lines 60 and 71: with a lighthouse at the bot's position both branches append the
  position to \<^verbatim>\<open>visited\<close>; without one \<^verbatim>\<open>visited\<close> is left alone.
\<close>

definition settle :: "'i BotGame \<Rightarrow> NewTurn \<Rightarrow> 'i BotGame" where
  "settle self t =
     (case lh_here t of
        Some lh \<Rightarrow>
          self\<lparr>visited := deque_append visited_maxlen (visited self) (pos_of (turn_Position t))\<rparr>
      | None \<Rightarrow> self)"

text \<open>Lines 61-65: the action of the attack branch.\<close>

definition attack_action :: "NewTurn \<Rightarrow> NewAction" where
  "attack_action t =
     \<lparr>Action = ATTACK, Destination = turn_Position t, Energy = turn_Energy t\<rparr>"

text \<open>
  The positions that a sequence of calls hands to \<^verbatim>\<open>visited.append\<close>, in the order of
  the calls: one for each turn with a lighthouse at the bot's position.
\<close>

definition appended :: "NewTurn list \<Rightarrow> pos list" where
  "appended ts = map (\<lambda>t. pos_of (turn_Position t)) (filter (\<lambda>t. lh_here t \<noteq> None) ts)"

section \<open>Joining the game\<close>

text \<open>
  \<^verbatim>\<open>BotComs\<close> (lines 103-109). The game server is the function that gives the outcome of
  the n-th \<^verbatim>\<open>Join\<close> call: a player identifier, or an exception. A call that runs into
  the timeout of line 14 raises \<^verbatim>\<open>RpcError\<close> like any other failed call. The number of
  calls made and the seconds spent in \<^verbatim>\<open>time.sleep\<close> are kept beside the bot.
\<close>

record BotComs =
  bot_id :: "int option"
  bot_name :: string
  my_address :: string
  game_server_address :: string
  verbose :: bool

datatype exn = RpcError | OtherError

datatype join_outcome = Returned int | Raised exn

record joining =
  coms :: BotComs
  calls :: nat
  slept :: nat

datatype loop_step = Break joining | Continue joining | Propagate exn

text \<open>
  Lines 118-127, one pass through the body of the loop: the call, then \<^verbatim>\<open>break\<close> with
  the identifier stored, or the handler of \<^verbatim>\<open>RpcError\<close> with its sleep of one second.
  An exception of another class is not caught.
\<close>

definition join_attempt :: "(nat \<Rightarrow> join_outcome) \<Rightarrow> joining \<Rightarrow> loop_step" where
  "join_attempt server j =
     (case server (calls j) of
        Returned player_id \<Rightarrow>
          Break (j\<lparr>coms := (coms j)\<lparr>bot_id := Some player_id\<rparr>, calls := calls j + 1\<rparr>)
      | Raised RpcError \<Rightarrow> Continue (j\<lparr>calls := calls j + 1, slept := slept j + 1\<rparr>)
      | Raised e \<Rightarrow> Propagate e)"

text \<open>
  \<^verbatim>\<open>wait_to_join_game\<close> (lines 111-127): \<^verbatim>\<open>while True\<close>. The value \<open>None\<close> stands for
  a loop that never ends.
\<close>

partial_function (option) wait_to_join_game ::
  "(nat \<Rightarrow> join_outcome) \<Rightarrow> joining \<Rightarrow> (exn + joining) option" where
  "wait_to_join_game server j =
     (case join_attempt server j of
        Break j' \<Rightarrow> Some (Inr j')
      | Continue j' \<Rightarrow> wait_to_join_game server j'
      | Propagate e \<Rightarrow> Some (Inl e))"

text \<open>
  \<^verbatim>\<open>start_listening\<close> (line 139) and \<^verbatim>\<open>ClientServer.__init__\<close> (line 168): the
  decision engine of the session is created with the identifier that the join stored.
\<close>

definition ClientServer_init :: "BotComs \<Rightarrow> 'i BotGame" where
  "ClientServer_init c = BotGame_init (bot_id c)"

section \<open>Facts about the containers\<close>

lemma Position_eta: "\<lparr>X = X p, Y = Y p\<rparr> = (p :: Position)"
  by (cases p) simp

lemma find_snoc:
  "find P (xs @ [a]) =
     (case find P xs of None \<Rightarrow> (if P a then Some a else None) | Some y \<Rightarrow> Some y)"
  by (induction xs) auto

lemma find_rev_Some_iff:
  "find P (rev xs) = Some x \<longleftrightarrow>
     (\<exists>as bs. xs = as @ x # bs \<and> P x \<and> (\<forall>l\<in>set bs. \<not> P l))"
proof (induction xs)
  case Nil
  then show ?case by simp
next
  case (Cons a xs)
  have "find P (rev (a # xs)) = Some x \<longleftrightarrow>
        find P (rev xs) = Some x \<or> (find P (rev xs) = None \<and> P a \<and> x = a)"
    by (auto simp: find_snoc split: option.splits)
  also have "\<dots> \<longleftrightarrow> (\<exists>as bs. xs = as @ x # bs \<and> P x \<and> (\<forall>l\<in>set bs. \<not> P l))
       \<or> ((\<forall>l\<in>set xs. \<not> P l) \<and> P a \<and> x = a)"
    by (auto simp: Cons.IH find_None_iff)
  also have "\<dots> \<longleftrightarrow> (\<exists>as bs. a # xs = as @ x # bs \<and> P x \<and> (\<forall>l\<in>set bs. \<not> P l))"
    by (auto simp: Cons_eq_append_conv)
  finally show ?case .
qed

lemma map_of_dict_set: "map_of (dict_set d k v) = (map_of d)(k \<mapsto> v)"
  by (induction d k v rule: dict_set.induct) auto

lemma dict_keys_dict_set:
  "dict_keys (dict_set d k v) =
     (if k \<in> set (dict_keys d) then dict_keys d else dict_keys d @ [k])"
  by (induction d k v rule: dict_set.induct) (auto simp: dict_keys_def)

lemma dict_get_build:
  "dict_get (foldl (\<lambda>d lh. dict_set d (k lh) lh) [] xs) p = find (\<lambda>l. k l = p) (rev xs)"
  by (induction xs rule: rev_induct) (auto simp: dict_get_def map_of_dict_set)

lemma lh_here_iff:
  "lh_here t = Some lh \<longleftrightarrow>
     (\<exists>as bs. turn_Lighthouses t = as @ lh # bs
        \<and> pos_of (lh_Position lh) = pos_of (turn_Position t)
        \<and> (\<forall>l\<in>set bs. pos_of (lh_Position l) \<noteq> pos_of (turn_Position t)))"
  unfolding lh_here_def lighthouses_of_def dict_get_build find_rev_Some_iff ..

lemma lh_here_None_iff:
  "lh_here t = None \<longleftrightarrow>
     (\<forall>l\<in>set (turn_Lighthouses t). pos_of (lh_Position l) \<noteq> pos_of (turn_Position t))"
  unfolding lh_here_def lighthouses_of_def dict_get_build by (auto simp: find_None_iff)

section \<open>The two ways through a turn\<close>

lemma new_turn_action_contested:
  "contested self t \<Longrightarrow>
   new_turn_action self t = (attack_action t, record_turn (settle self t) t (attack_action t))"
  by (auto simp: new_turn_action_def contested_def settle_def lh_here_def pos_of_def Let_def
        attack_action_def Position_eta split: option.splits)

lemma new_turn_action_uncontested:
  "\<not> contested self t \<Longrightarrow>
   new_turn_action self t =
     (let self2 = choose_target (settle self t) (pos_of (turn_Position t)) (lighthouses_of t);
          a = move_action self2 (X (turn_Position t)) (Y (turn_Position t))
      in (a, record_turn self2 t a))"
  by (auto simp: new_turn_action_def contested_def settle_def lh_here_def pos_of_def Let_def
        split: option.splits)

lemma move_action_Action:
  "Action (move_action self cx cy) = (if target self = None then PASS else MOVE)"
  by (simp add: move_action_def Let_def split: option.splits prod.splits)

lemma attack_iff_contested:
  "Action (fst (new_turn_action self t)) = ATTACK \<longleftrightarrow> contested self t"
  by (cases "contested self t")
     (simp_all add: new_turn_action_contested new_turn_action_uncontested Let_def
        attack_action_def move_action_Action)

lemma choose_target_frame:
  "player_num (choose_target self p d) = player_num self"
  "initial_state (choose_target self p d) = initial_state self"
  "turn_states (choose_target self p d) = turn_states self"
  "visited (choose_target self p d) = visited self"
  "countT (choose_target self p d) = countT self"
  by (simp_all add: choose_target_def Let_def split: list.splits)

lemma settle_frame:
  "player_num (settle self t) = player_num self"
  "initial_state (settle self t) = initial_state self"
  "turn_states (settle self t) = turn_states self"
  "target (settle self t) = target self"
  "countT (settle self t) = countT self"
  by (simp_all add: settle_def split: option.splits)

lemma visited_new_turn_action:
  "visited (snd (new_turn_action self t)) = visited (settle self t)"
  by (cases "contested self t")
     (simp_all add: new_turn_action_contested new_turn_action_uncontested Let_def
        record_turn_def choose_target_frame)

lemma target_new_turn_action:
  "target (snd (new_turn_action self t)) =
     (if contested self t then target self
      else target (choose_target (settle self t) (pos_of (turn_Position t)) (lighthouses_of t)))"
  by (cases "contested self t")
     (simp_all add: new_turn_action_contested new_turn_action_uncontested Let_def
        record_turn_def settle_frame)

section \<open>Properties of one turn\<close>

lemma move_action_step:
  assumes "target self = Some (tx, ty)"
  shows "move_action self cx cy =
           \<lparr>Action = MOVE, Destination = \<lparr>X = cx + sgn (tx - cx), Y = cy + sgn (ty - cy)\<rparr>,
            Energy = 0\<rparr>"
  using assms by (simp add: move_action_def Let_def sgn_if)

lemma move_action_pass:
  assumes "target self = None"
  shows "move_action self cx cy = \<lparr>Action = PASS, Destination = \<lparr>X = cx, Y = cy\<rparr>, Energy = 0\<rparr>"
  using assms by (simp add: move_action_def)

lemma action_uncontested:
  assumes "\<not> contested self t"
  shows "fst (new_turn_action self t) =
           move_action (snd (new_turn_action self t)) (X (turn_Position t)) (Y (turn_Position t))"
  using assms
  by (simp add: new_turn_action_uncontested Let_def record_turn_def move_action_def)

lemma play_countT: "countT (play self ts) = countT self + int (length ts)"
proof (induction ts arbitrary: self)
  case Nil
  show ?case by simp
next
  case (Cons t ts)
  have "countT (snd (new_turn_action self t)) = countT self + 1"
    by (cases "contested self t")
       (simp_all add: new_turn_action_contested new_turn_action_uncontested Let_def
          record_turn_def choose_target_frame settle_frame)
  then show ?case by (simp add: Cons.IH)
qed

lemma play_turn_states: "length (turn_states (play self ts)) = length (turn_states self) + length ts"
proof (induction ts arbitrary: self)
  case Nil
  show ?case by simp
next
  case (Cons t ts)
  have "length (turn_states (snd (new_turn_action self t))) = length (turn_states self) + 1"
    by (cases "contested self t")
       (simp_all add: new_turn_action_contested new_turn_action_uncontested Let_def
          record_turn_def choose_target_frame settle_frame)
  then show ?case by (simp add: Cons.IH)
qed

text \<open>
  C6. The action that \<^verbatim>\<open>new_turn_action\<close> returns is never \<^verbatim>\<open>CONNECT\<close>: for every bot
  and every observation it is \<^verbatim>\<open>ATTACK\<close>, \<^verbatim>\<open>MOVE\<close> or \<^verbatim>\<open>PASS\<close>.
\<close>

theorem never_connect:
  "Action (fst (new_turn_action self t)) \<noteq> CONNECT \<and>
   (Action (fst (new_turn_action self t)) = ATTACK \<or>
    Action (fst (new_turn_action self t)) = MOVE \<or>
    Action (fst (new_turn_action self t)) = PASS)"
proof (cases "contested self t")
  case True
  then show ?thesis by (simp add: new_turn_action_contested attack_action_def)
next
  case False
  then show ?thesis by (simp add: new_turn_action_uncontested Let_def move_action_Action)
qed

text \<open>
  C7. Every call of \<^verbatim>\<open>new_turn_action\<close>, whatever branch gives the action, appends
  exactly one record of the observation and the returned action to \<^verbatim>\<open>turn_states\<close> and
  adds exactly one to \<^verbatim>\<open>countT\<close>. The counter of a new bot is 1, so after n turns it is
  n + 1 and the history has n records: the counter grows strictly from turn to turn.
\<close>

theorem turn_recorded_and_counted:
  "turn_states (snd (new_turn_action self t)) =
     turn_states self @ [\<lparr>turn = t, action = fst (new_turn_action self t)\<rparr>]
   \<and> countT (snd (new_turn_action self t)) = countT self + 1
   \<and> countT self < countT (snd (new_turn_action self t))
   \<and> countT (BotGame_init pn :: 'i BotGame) = 1
   \<and> countT (play (BotGame_init pn :: 'i BotGame) ts) = 1 + int (length ts)
   \<and> length (turn_states (play (BotGame_init pn :: 'i BotGame) ts)) = length ts"
proof -
  have one: "turn_states (snd (new_turn_action self t)) =
       turn_states self @ [\<lparr>turn = t, action = fst (new_turn_action self t)\<rparr>]
     \<and> countT (snd (new_turn_action self t)) = countT self + 1"
    by (cases "contested self t")
       (simp_all add: new_turn_action_contested new_turn_action_uncontested Let_def
          record_turn_def choose_target_frame settle_frame)
  have init: "countT (BotGame_init pn :: 'i BotGame) = 1"
             "turn_states (BotGame_init pn :: 'i BotGame) = []"
    by (simp_all add: BotGame_init_def)
  show ?thesis
    using one by (simp add: play_countT play_turn_states init)
qed

text \<open>
  C10. A call that returns \<^verbatim>\<open>ATTACK\<close> leaves the stored target as it was: no target is
  chosen and no move is computed. Of the bot only \<^verbatim>\<open>visited\<close> (the bot's position is
  appended), \<^verbatim>\<open>turn_states\<close> (the turn is recorded) and \<^verbatim>\<open>countT\<close> (one is added)
  change.
\<close>

theorem attack_keeps_target:
  assumes "Action (fst (new_turn_action self t)) = ATTACK"
  shows "target (snd (new_turn_action self t)) = target self
   \<and> snd (new_turn_action self t) =
       self\<lparr>visited := deque_append visited_maxlen (visited self) (pos_of (turn_Position t)),
            turn_states := turn_states self @ [\<lparr>turn = t, action = fst (new_turn_action self t)\<rparr>],
            countT := countT self + 1\<rparr>"
proof -
  from assms have c: "contested self t" by (simp add: attack_iff_contested)
  then have "lh_here t \<noteq> None" by (auto simp: contested_def split: option.splits)
  then have "settle self t =
      self\<lparr>visited := deque_append visited_maxlen (visited self) (pos_of (turn_Position t))\<rparr>"
    by (auto simp: settle_def split: option.splits)
  with c show ?thesis
    by (simp add: new_turn_action_contested record_turn_def)
qed

theorem attack_keeps_target_witness:
  "Action (fst (new_turn_action
      \<lparr>player_num = Some 1, initial_state = None :: unit option, turn_states = [],
       visited = [(1, 1), (2, 2), (3, 3)], target = Some (8, 5), countT = 4\<rparr>
      \<lparr>turn_Position = \<lparr>X = 5, Y = 5\<rparr>, turn_Energy = 10,
       turn_Lighthouses = [\<lparr>lh_Position = \<lparr>X = 5, Y = 5\<rparr>, lh_Owner = 2\<rparr>,
                           \<lparr>lh_Position = \<lparr>X = 8, Y = 5\<rparr>, lh_Owner = 0\<rparr>]\<rparr>)) = ATTACK
   \<and> target (snd (new_turn_action
      \<lparr>player_num = Some 1, initial_state = None :: unit option, turn_states = [],
       visited = [(1, 1), (2, 2), (3, 3)], target = Some (8, 5), countT = 4\<rparr>
      \<lparr>turn_Position = \<lparr>X = 5, Y = 5\<rparr>, turn_Energy = 10,
       turn_Lighthouses = [\<lparr>lh_Position = \<lparr>X = 5, Y = 5\<rparr>, lh_Owner = 2\<rparr>,
                           \<lparr>lh_Position = \<lparr>X = 8, Y = 5\<rparr>, lh_Owner = 0\<rparr>]\<rparr>)) = Some (8, 5)
   \<and> visited (snd (new_turn_action
      \<lparr>player_num = Some 1, initial_state = None :: unit option, turn_states = [],
       visited = [(1, 1), (2, 2), (3, 3)], target = Some (8, 5), countT = 4\<rparr>
      \<lparr>turn_Position = \<lparr>X = 5, Y = 5\<rparr>, turn_Energy = 10,
       turn_Lighthouses = [\<lparr>lh_Position = \<lparr>X = 5, Y = 5\<rparr>, lh_Owner = 2\<rparr>,
                           \<lparr>lh_Position = \<lparr>X = 8, Y = 5\<rparr>, lh_Owner = 0\<rparr>]\<rparr>)) =
       [(2, 2), (3, 3), (5, 5)]"
proof -
  let ?s = "\<lparr>player_num = Some 1, initial_state = None :: unit option, turn_states = [],
       visited = [(1, 1), (2, 2), (3, 3)], target = Some (8, 5), countT = 4\<rparr>"
  let ?t = "\<lparr>turn_Position = \<lparr>X = 5, Y = 5\<rparr>, turn_Energy = 10,
       turn_Lighthouses = [\<lparr>lh_Position = \<lparr>X = 5, Y = 5\<rparr>, lh_Owner = 2\<rparr>,
                           \<lparr>lh_Position = \<lparr>X = 8, Y = 5\<rparr>, lh_Owner = 0\<rparr>]\<rparr>"
  have h: "Action (fst (new_turn_action ?s ?t)) = ATTACK"
    by (simp add: new_turn_action_def lighthouses_of_def dict_get_def pos_of_def Let_def)
  from attack_keeps_target [OF h] have
    "target (snd (new_turn_action ?s ?t)) = Some (8, 5)"
    "visited (snd (new_turn_action ?s ?t)) = [(2, 2), (3, 3), (5, 5)]"
    by (simp_all add: deque_append_def visited_maxlen_def pos_of_def)
  with h show ?thesis by simp
qed

text \<open>
  C4. When \<^verbatim>\<open>new_turn_action\<close> returns \<^verbatim>\<open>MOVE\<close>, the bot holds a target, the one the move
  was computed for, and on each axis the destination is the current coordinate plus the
  sign of the difference between the target's coordinate and the current one (0 for equal
  coordinates, 1 for a greater target coordinate, -1 for a smaller one). So the destination
  differs from the current position by at most 1 on each axis.
\<close>

theorem move_is_unit_step:
  assumes "Action (fst (new_turn_action self t)) = MOVE"
  shows "\<exists>tx ty. target (snd (new_turn_action self t)) = Some (tx, ty)
     \<and> X (Destination (fst (new_turn_action self t))) =
         X (turn_Position t) + sgn (tx - X (turn_Position t))
     \<and> Y (Destination (fst (new_turn_action self t))) =
         Y (turn_Position t) + sgn (ty - Y (turn_Position t))
     \<and> \<bar>X (Destination (fst (new_turn_action self t))) - X (turn_Position t)\<bar> \<le> 1
     \<and> \<bar>Y (Destination (fst (new_turn_action self t))) - Y (turn_Position t)\<bar> \<le> 1"
proof -
  let ?a = "fst (new_turn_action self t)" and ?s = "snd (new_turn_action self t)"
  from assms have nc: "\<not> contested self t"
    using attack_iff_contested [of self t] by auto
  then have a: "?a = move_action ?s (X (turn_Position t)) (Y (turn_Position t))"
    by (rule action_uncontested)
  with assms have "target ?s \<noteq> None"
    by (auto simp: move_action_Action split: if_splits)
  then obtain tx ty where tg: "target ?s = Some (tx, ty)" by auto
  have "?a = \<lparr>Action = MOVE,
      Destination = \<lparr>X = X (turn_Position t) + sgn (tx - X (turn_Position t)),
                     Y = Y (turn_Position t) + sgn (ty - Y (turn_Position t))\<rparr>,
      Energy = 0\<rparr>"
    using a move_action_step [OF tg] by simp
  then have "X (Destination ?a) = X (turn_Position t) + sgn (tx - X (turn_Position t))"
    and "Y (Destination ?a) = Y (turn_Position t) + sgn (ty - Y (turn_Position t))"
    by simp_all
  with tg show ?thesis by (auto simp: sgn_if)
qed

theorem move_is_unit_step_witness:
  "Action (fst (new_turn_action (BotGame_init (Some 1) :: unit BotGame)
      \<lparr>turn_Position = \<lparr>X = 0, Y = 0\<rparr>, turn_Energy = 10,
       turn_Lighthouses = [\<lparr>lh_Position = \<lparr>X = 3, Y = 0\<rparr>, lh_Owner = 0\<rparr>,
                           \<lparr>lh_Position = \<lparr>X = 0, Y = 4\<rparr>, lh_Owner = 0\<rparr>]\<rparr>)) = MOVE
   \<and> (\<exists>tx ty. target (snd (new_turn_action (BotGame_init (Some 1) :: unit BotGame)
      \<lparr>turn_Position = \<lparr>X = 0, Y = 0\<rparr>, turn_Energy = 10,
       turn_Lighthouses = [\<lparr>lh_Position = \<lparr>X = 3, Y = 0\<rparr>, lh_Owner = 0\<rparr>,
                           \<lparr>lh_Position = \<lparr>X = 0, Y = 4\<rparr>, lh_Owner = 0\<rparr>]\<rparr>)) = Some (tx, ty)
      \<and> X (Destination (fst (new_turn_action (BotGame_init (Some 1) :: unit BotGame)
      \<lparr>turn_Position = \<lparr>X = 0, Y = 0\<rparr>, turn_Energy = 10,
       turn_Lighthouses = [\<lparr>lh_Position = \<lparr>X = 3, Y = 0\<rparr>, lh_Owner = 0\<rparr>,
                           \<lparr>lh_Position = \<lparr>X = 0, Y = 4\<rparr>, lh_Owner = 0\<rparr>]\<rparr>))) = 0 + sgn (tx - 0))"
proof -
  let ?s = "BotGame_init (Some 1) :: unit BotGame"
  let ?t = "\<lparr>turn_Position = \<lparr>X = 0, Y = 0\<rparr>, turn_Energy = 10,
       turn_Lighthouses = [\<lparr>lh_Position = \<lparr>X = 3, Y = 0\<rparr>, lh_Owner = 0\<rparr>,
                           \<lparr>lh_Position = \<lparr>X = 0, Y = 4\<rparr>, lh_Owner = 0\<rparr>]\<rparr>"
  have h: "Action (fst (new_turn_action ?s ?t)) = MOVE"
    by (simp add: new_turn_action_def lighthouses_of_def dict_get_def dict_keys_def pos_of_def
          Let_def BotGame_init_def choose_target_def manhattan_distance_def move_action_def
          record_turn_def)
  from move_is_unit_step [OF h] h show ?thesis by auto
qed

section \<open>The bounded history of visited positions\<close>

lemma deque_append_last:
  assumes "length d \<le> n"
  shows "deque_append n d x = drop (length (d @ [x]) - n) (d @ [x])"
proof (cases "length d = n")
  case True
  then have "deque_append n d x = tl (d @ [x])" by (simp add: deque_append_def)
  moreover from True have "length (d @ [x]) - n = Suc 0" by simp
  ultimately show ?thesis by (simp only: drop_Suc drop_0)
next
  case False
  with assms show ?thesis by (simp add: deque_append_def)
qed

lemma last_of_last:
  "drop (length (drop (length xs - n) xs @ ys) - n) (drop (length xs - n) xs @ ys) =
   drop (length (xs @ ys) - n) (xs @ ys)"
  by (cases "length xs \<le> n") (auto simp: add.commute)

lemma visited_step:
  "visited (snd (new_turn_action self t)) =
     (if lh_here t = None then visited self
      else deque_append visited_maxlen (visited self) (pos_of (turn_Position t)))"
  by (simp add: visited_new_turn_action settle_def split: option.splits)

lemma visited_play:
  assumes "length (visited self) \<le> 3"
  shows "visited (play self ts) =
           drop (length (visited self @ appended ts) - 3) (visited self @ appended ts)"
  using assms
proof (induction ts arbitrary: self)
  case Nil
  then show ?case by (simp add: appended_def)
next
  case (Cons t ts)
  let ?s = "snd (new_turn_action self t)"
  show ?case
  proof (cases "lh_here t = None")
    case True
    then have "visited ?s = visited self" by (simp add: visited_step)
    with Cons True show ?thesis by (simp add: appended_def)
  next
    case False
    let ?p = "pos_of (turn_Position t)"
    have "visited ?s = deque_append 3 (visited self) ?p"
      using False by (simp only: visited_step visited_maxlen_def if_False)
    then have v: "visited ?s = drop (length (visited self @ [?p]) - 3) (visited self @ [?p])"
      using Cons.prems by (simp only: deque_append_last)
    then have "length (visited ?s) \<le> 3" by simp
    then have "visited (play ?s ts) =
        drop (length (visited ?s @ appended ts) - 3) (visited ?s @ appended ts)"
      by (rule Cons.IH)
    also have "\<dots> = drop (length ((visited self @ [?p]) @ appended ts) - 3)
                      ((visited self @ [?p]) @ appended ts)"
      unfolding v by (rule last_of_last)
    finally show ?thesis using False by (simp add: appended_def)
  qed
qed

text \<open>
  C3. In a game, that is from a new bot through any sequence of calls of
  \<^verbatim>\<open>new_turn_action\<close>, \<^verbatim>\<open>visited\<close> never holds more than 3 positions: it holds the last
  3 of the positions appended so far (all of them while there are fewer), in the order of
  their insertion. So the append that would make a 4th entry drops the oldest one: a full
  history a, b, c becomes b, c, d, and a position stays only as far as a later append put
  it there again. A call appends the bot's position when a lighthouse stands there and
  leaves \<^verbatim>\<open>visited\<close> alone otherwise.
\<close>

theorem visited_last_three:
  "length (visited (play (BotGame_init pn :: 'i BotGame) ts)) \<le> 3
   \<and> visited (play (BotGame_init pn :: 'i BotGame) ts) =
       drop (length (appended ts) - 3) (appended ts)
   \<and> visited (snd (new_turn_action self t)) =
       (if lh_here t = None then visited self
        else deque_append visited_maxlen (visited self) (pos_of (turn_Position t)))
   \<and> deque_append visited_maxlen [a, b, c] d = [b, c, d]"
proof -
  have "length (visited (BotGame_init pn :: 'i BotGame)) \<le> 3"
    by (simp add: BotGame_init_def)
  then have "visited (play (BotGame_init pn :: 'i BotGame) ts) =
      drop (length (visited (BotGame_init pn :: 'i BotGame) @ appended ts) - 3)
        (visited (BotGame_init pn :: 'i BotGame) @ appended ts)"
    by (rule visited_play)
  then have eq: "visited (play (BotGame_init pn :: 'i BotGame) ts) =
      drop (length (appended ts) - 3) (appended ts)"
    by (simp add: BotGame_init_def)
  then have "length (visited (play (BotGame_init pn :: 'i BotGame) ts)) \<le> 3"
    by simp
  moreover have "deque_append visited_maxlen [a, b, c] d = [b, c, d]"
    by (simp add: deque_append_def visited_maxlen_def)
  ultimately show ?thesis using eq visited_step [of self t] by simp
qed

section \<open>The attack branch\<close>

lemma contested_iff:
  "contested self t \<longleftrightarrow>
     (\<exists>as lh bs. turn_Lighthouses t = as @ lh # bs
        \<and> pos_of (lh_Position lh) = pos_of (turn_Position t)
        \<and> (\<forall>l\<in>set bs. pos_of (lh_Position l) \<noteq> pos_of (turn_Position t))
        \<and> Some (lh_Owner lh) \<noteq> player_num self)"
proof -
  have "contested self t \<longleftrightarrow> (\<exists>lh. lh_here t = Some lh \<and> Some (lh_Owner lh) \<noteq> player_num self)"
    by (auto simp: contested_def split: option.splits)
  then show ?thesis unfolding lh_here_iff by blast
qed

lemma lh_here_unique:
  assumes "distinct (map (\<lambda>l. pos_of (lh_Position l)) (turn_Lighthouses t))"
    and "lh \<in> set (turn_Lighthouses t)"
    and "pos_of (lh_Position lh) = pos_of (turn_Position t)"
  shows "lh_here t = Some lh"
proof -
  from assms(2,3) have "lh_here t \<noteq> None" by (auto simp: lh_here_None_iff)
  then obtain lh' where h: "lh_here t = Some lh'" by auto
  then have "lh' \<in> set (turn_Lighthouses t)"
    and "pos_of (lh_Position lh') = pos_of (turn_Position t)"
    by (auto simp: lh_here_iff)
  moreover from assms(1)
  have "inj_on (\<lambda>l. pos_of (lh_Position l)) (set (turn_Lighthouses t))"
    by (simp add: distinct_map)
  ultimately have "lh' = lh"
    using assms(2,3) unfolding inj_on_def by metis
  with h show ?thesis by simp
qed

text \<open>
  C1. For every bot and every observation \<^verbatim>\<open>new_turn_action\<close> returns \<^verbatim>\<open>ATTACK\<close> if and
  only if a lighthouse stands at the bot's exact position and the owner of that lighthouse
  differs from the bot's \<^verbatim>\<open>player_num\<close>. The lighthouse at a position is the one that the
  position-keyed dictionary of lines 40-41 holds, the last one listed there (first part);
  for an observation that lists each position once this is any listed lighthouse at the
  bot's position (second part). The destination of the attack is the bot's position and
  its energy is the full energy of the observation (third part).
\<close>

theorem attack_iff_lighthouse_here_contested:
  "(Action (fst (new_turn_action self t)) = ATTACK \<longleftrightarrow>
      (\<exists>as lh bs. turn_Lighthouses t = as @ lh # bs
         \<and> pos_of (lh_Position lh) = pos_of (turn_Position t)
         \<and> (\<forall>l\<in>set bs. pos_of (lh_Position l) \<noteq> pos_of (turn_Position t))
         \<and> Some (lh_Owner lh) \<noteq> player_num self))
   \<and> (distinct (map (\<lambda>l. pos_of (lh_Position l)) (turn_Lighthouses t)) \<longrightarrow>
        (Action (fst (new_turn_action self t)) = ATTACK \<longleftrightarrow>
           (\<exists>lh\<in>set (turn_Lighthouses t).
              pos_of (lh_Position lh) = pos_of (turn_Position t)
              \<and> Some (lh_Owner lh) \<noteq> player_num self)))
   \<and> (Action (fst (new_turn_action self t)) = ATTACK \<longrightarrow>
        Destination (fst (new_turn_action self t)) = turn_Position t
        \<and> Energy (fst (new_turn_action self t)) = turn_Energy t)"
proof (intro conjI impI)
  show "Action (fst (new_turn_action self t)) = ATTACK \<longleftrightarrow>
      (\<exists>as lh bs. turn_Lighthouses t = as @ lh # bs
         \<and> pos_of (lh_Position lh) = pos_of (turn_Position t)
         \<and> (\<forall>l\<in>set bs. pos_of (lh_Position l) \<noteq> pos_of (turn_Position t))
         \<and> Some (lh_Owner lh) \<noteq> player_num self)"
    unfolding attack_iff_contested by (rule contested_iff)
next
  assume d: "distinct (map (\<lambda>l. pos_of (lh_Position l)) (turn_Lighthouses t))"
  show "Action (fst (new_turn_action self t)) = ATTACK \<longleftrightarrow>
      (\<exists>lh\<in>set (turn_Lighthouses t).
          pos_of (lh_Position lh) = pos_of (turn_Position t)
          \<and> Some (lh_Owner lh) \<noteq> player_num self)"
  proof
    assume "Action (fst (new_turn_action self t)) = ATTACK"
    then have "contested self t" by (simp add: attack_iff_contested)
    then obtain lh where "lh_here t = Some lh" "Some (lh_Owner lh) \<noteq> player_num self"
      by (auto simp: contested_def split: option.splits)
    then show "\<exists>lh\<in>set (turn_Lighthouses t).
          pos_of (lh_Position lh) = pos_of (turn_Position t)
          \<and> Some (lh_Owner lh) \<noteq> player_num self"
      by (auto simp: lh_here_iff)
  next
    assume "\<exists>lh\<in>set (turn_Lighthouses t).
          pos_of (lh_Position lh) = pos_of (turn_Position t)
          \<and> Some (lh_Owner lh) \<noteq> player_num self"
    then obtain lh where lh: "lh \<in> set (turn_Lighthouses t)"
        "pos_of (lh_Position lh) = pos_of (turn_Position t)"
        "Some (lh_Owner lh) \<noteq> player_num self"
      by auto
    from lh_here_unique [OF d lh(1,2)] lh(3) have "contested self t"
      by (simp add: contested_def)
    then show "Action (fst (new_turn_action self t)) = ATTACK"
      by (simp add: attack_iff_contested)
  qed
next
  assume "Action (fst (new_turn_action self t)) = ATTACK"
  then have "contested self t" by (simp add: attack_iff_contested)
  then have "fst (new_turn_action self t) = attack_action t"
    by (simp add: new_turn_action_contested)
  then show "Destination (fst (new_turn_action self t)) = turn_Position t"
    and "Energy (fst (new_turn_action self t)) = turn_Energy t"
    by (simp_all add: attack_action_def)
qed

theorem attack_iff_lighthouse_here_contested_witness:
  "distinct (map (\<lambda>l. pos_of (lh_Position l))
      [\<lparr>lh_Position = \<lparr>X = 5, Y = 5\<rparr>, lh_Owner = 2\<rparr>,
       \<lparr>lh_Position = \<lparr>X = 8, Y = 5\<rparr>, lh_Owner = 0\<rparr>])
   \<and> fst (new_turn_action (BotGame_init (Some 1) :: unit BotGame)
      \<lparr>turn_Position = \<lparr>X = 5, Y = 5\<rparr>, turn_Energy = 10,
       turn_Lighthouses = [\<lparr>lh_Position = \<lparr>X = 5, Y = 5\<rparr>, lh_Owner = 2\<rparr>,
                           \<lparr>lh_Position = \<lparr>X = 8, Y = 5\<rparr>, lh_Owner = 0\<rparr>]\<rparr>) =
      \<lparr>Action = ATTACK, Destination = \<lparr>X = 5, Y = 5\<rparr>, Energy = 10\<rparr>"
proof -
  let ?s = "BotGame_init (Some 1) :: unit BotGame"
  let ?l1 = "\<lparr>lh_Position = \<lparr>X = 5, Y = 5\<rparr>, lh_Owner = 2\<rparr>"
  let ?l2 = "\<lparr>lh_Position = \<lparr>X = 8, Y = 5\<rparr>, lh_Owner = 0\<rparr>"
  let ?t = "\<lparr>turn_Position = \<lparr>X = 5, Y = 5\<rparr>, turn_Energy = 10,
       turn_Lighthouses = [?l1, ?l2]\<rparr>"
  let ?a = "fst (new_turn_action ?s ?t)"
  have d: "distinct (map (\<lambda>l. pos_of (lh_Position l)) (turn_Lighthouses ?t))"
    by (simp add: pos_of_def)
  have "turn_Lighthouses ?t = [] @ ?l1 # [?l2]
      \<and> pos_of (lh_Position ?l1) = pos_of (turn_Position ?t)
      \<and> (\<forall>l\<in>set [?l2]. pos_of (lh_Position l) \<noteq> pos_of (turn_Position ?t))
      \<and> Some (lh_Owner ?l1) \<noteq> player_num ?s"
    by (simp add: pos_of_def BotGame_init_def)
  then have ex: "\<exists>as lh bs. turn_Lighthouses ?t = as @ lh # bs
         \<and> pos_of (lh_Position lh) = pos_of (turn_Position ?t)
         \<and> (\<forall>l\<in>set bs. pos_of (lh_Position l) \<noteq> pos_of (turn_Position ?t))
         \<and> Some (lh_Owner lh) \<noteq> player_num ?s"
    by blast
  have ex2: "\<exists>lh\<in>set (turn_Lighthouses ?t).
       pos_of (lh_Position lh) = pos_of (turn_Position ?t)
       \<and> Some (lh_Owner lh) \<noteq> player_num ?s"
    by (simp add: pos_of_def BotGame_init_def)
  note c1 = attack_iff_lighthouse_here_contested [of ?s ?t]
  from c1 ex have a: "Action ?a = ATTACK" by blast
  from c1 d ex2 have "Action ?a = ATTACK" by blast
  from c1 a have "Destination ?a = turn_Position ?t" "Energy ?a = turn_Energy ?t"
    by blast+
  with a have "?a = \<lparr>Action = ATTACK, Destination = \<lparr>X = 5, Y = 5\<rparr>, Energy = 10\<rparr>"
    by (cases ?a) simp
  with d show ?thesis by simp
qed

text \<open>
  An observation that lists two lighthouses at the bot's position, which the position-keyed
  lighthouse set of the game does not do: the dictionary holds the last one, here a
  lighthouse of the bot itself, and the bot does not attack.
\<close>

lemma last_listed_lighthouse_decides_example:
  "\<lparr>lh_Position = \<lparr>X = 0, Y = 0\<rparr>, lh_Owner = 2\<rparr> \<in> set (turn_Lighthouses
      \<lparr>turn_Position = \<lparr>X = 0, Y = 0\<rparr>, turn_Energy = 10,
       turn_Lighthouses = [\<lparr>lh_Position = \<lparr>X = 0, Y = 0\<rparr>, lh_Owner = 2\<rparr>,
                           \<lparr>lh_Position = \<lparr>X = 0, Y = 0\<rparr>, lh_Owner = 1\<rparr>]\<rparr>)
   \<and> lh_Position \<lparr>lh_Position = \<lparr>X = 0, Y = 0\<rparr>, lh_Owner = 2\<rparr> = \<lparr>X = 0, Y = 0\<rparr>
   \<and> Some (lh_Owner \<lparr>lh_Position = \<lparr>X = 0, Y = 0\<rparr>, lh_Owner = 2\<rparr>) \<noteq>
       player_num (BotGame_init (Some 1) :: unit BotGame)
   \<and> fst (new_turn_action (BotGame_init (Some 1) :: unit BotGame)
      \<lparr>turn_Position = \<lparr>X = 0, Y = 0\<rparr>, turn_Energy = 10,
       turn_Lighthouses = [\<lparr>lh_Position = \<lparr>X = 0, Y = 0\<rparr>, lh_Owner = 2\<rparr>,
                           \<lparr>lh_Position = \<lparr>X = 0, Y = 0\<rparr>, lh_Owner = 1\<rparr>]\<rparr>) =
      \<lparr>Action = PASS, Destination = \<lparr>X = 0, Y = 0\<rparr>, Energy = 0\<rparr>"
  by (simp add: new_turn_action_def lighthouses_of_def dict_get_def dict_keys_def pos_of_def
        Let_def BotGame_init_def choose_target_def move_action_def deque_append_def
        visited_maxlen_def)

section \<open>Choosing the target\<close>

lemma min_from_split:
  "\<exists>ys zs. best # xs = ys @ min_from key best xs # zs
     \<and> (\<forall>y\<in>set ys. key (min_from key best xs) < key y)
     \<and> (\<forall>z\<in>set zs. key (min_from key best xs) \<le> key z)"
proof (induction xs arbitrary: best)
  case Nil
  have "[best] = [] @ min_from key best [] # []
     \<and> (\<forall>y\<in>set []. key (min_from key best []) < key y)
     \<and> (\<forall>z\<in>set []. key (min_from key best []) \<le> key z)"
    by simp
  then show ?case by blast
next
  case (Cons x xs)
  show ?case
  proof (cases "key x < key best")
    case True
    define r where "r = min_from key x xs"
    have m: "min_from key best (x # xs) = r" using True by (simp add: r_def)
    from Cons.IH [of x] obtain ys zs where s: "x # xs = ys @ r # zs"
      and l: "\<forall>y\<in>set ys. key r < key y"
      and g: "\<forall>z\<in>set zs. key r \<le> key z"
      unfolding r_def by blast
    have "x \<in> set (ys @ r # zs)" unfolding s [symmetric] by simp
    with l g have "key r \<le> key x" by auto
    with True have "key r < key best" by simp
    with l have l': "\<forall>y\<in>set (best # ys). key r < key y" by simp
    have "best # x # xs = (best # ys) @ r # zs" unfolding s by simp
    with l' g show ?thesis unfolding m by blast
  next
    case False
    define r where "r = min_from key best xs"
    have m: "min_from key best (x # xs) = r" using False by (simp add: r_def)
    from Cons.IH [of best] obtain ys zs where s: "best # xs = ys @ r # zs"
      and l: "\<forall>y\<in>set ys. key r < key y"
      and g: "\<forall>z\<in>set zs. key r \<le> key z"
      unfolding r_def by blast
    show ?thesis
    proof (cases ys)
      case Nil
      with s have b: "r = best" and z: "zs = xs" by simp_all
      from False b have "key r \<le> key x" by simp
      with g z have g': "\<forall>z\<in>set (x # xs). key r \<le> key z" by simp
      have "best # x # xs = [] @ r # (x # xs)" using b by simp
      moreover have "\<forall>y\<in>set []. key r < key y" by simp
      ultimately show ?thesis using g' unfolding m by blast
    next
      case (Cons b ys')
      with s have b: "b = best" and s': "xs = ys' @ r # zs" by simp_all
      from l Cons b have "key r < key best" by simp
      with False have "key r < key x" by simp
      with l Cons b have l': "\<forall>y\<in>set (best # x # ys'). key r < key y" by simp
      have "best # x # xs = (best # x # ys') @ r # zs" using s' by simp
      with l' g show ?thesis unfolding m by blast
    qed
  qed
qed

lemma min_from_first_least:
  "min_from key best xs \<in> set (best # xs)"
  "\<forall>q\<in>set (best # xs). key (min_from key best xs) \<le> key q"
  "\<forall>q\<in>set (takeWhile (\<lambda>q. q \<noteq> min_from key best xs) (best # xs)).
      key (min_from key best xs) < key q"
proof -
  let ?r = "min_from key best xs"
  from min_from_split [of best xs key] obtain ys zs where s: "best # xs = ys @ ?r # zs"
    and l: "\<forall>y\<in>set ys. key ?r < key y" and g: "\<forall>z\<in>set zs. key ?r \<le> key z"
    by blast
  from s show "?r \<in> set (best # xs)" by (metis in_set_conv_decomp)
  have "set (best # xs) = set ys \<union> {?r} \<union> set zs" unfolding s by auto
  with l g show "\<forall>q\<in>set (best # xs). key ?r \<le> key q" by auto
  from l have "\<forall>y\<in>set ys. y \<noteq> ?r" by auto
  then have "takeWhile (\<lambda>q. q \<noteq> ?r) (ys @ ?r # zs) = ys" by (simp add: takeWhile_append2)
  with l show "\<forall>q\<in>set (takeWhile (\<lambda>q. q \<noteq> ?r) (best # xs)). key ?r < key q"
    unfolding s by simp
qed

lemma takeWhile_filter_first:
  "P r \<Longrightarrow> takeWhile (\<lambda>q. q \<noteq> r) (filter P xs) = filter P (takeWhile (\<lambda>q. q \<noteq> r) xs)"
  by (induction xs) auto

lemma set_takeWhile_repeat:
  assumes "k \<in> set ks"
  shows "set (takeWhile (\<lambda>q. q \<noteq> r) (ks @ k # xs)) = set (takeWhile (\<lambda>q. q \<noteq> r) (ks @ xs))"
proof (cases "r \<in> set ks")
  case True
  then show ?thesis
    using takeWhile_append1 [of r ks "\<lambda>q. q \<noteq> r"] by simp
next
  case False
  with assms have kr: "k \<noteq> r" by auto
  have a: "takeWhile (\<lambda>q. q \<noteq> r) (ks @ ys) = ks @ takeWhile (\<lambda>q. q \<noteq> r) ys" for ys
    using False by (intro takeWhile_append2) auto
  show ?thesis unfolding a using kr assms by auto
qed

lemma dict_keys_Nil: "dict_keys [] = []"
  by (simp add: dict_keys_def)

lemma dict_keys_build:
  "set (dict_keys (foldl (\<lambda>d lh. dict_set d (k lh) lh) d xs)) = set (dict_keys d) \<union> k ` set xs"
  by (induction xs arbitrary: d) (auto simp: dict_keys_dict_set)

lemma dict_keys_build_takeWhile:
  "set (takeWhile (\<lambda>q. q \<noteq> r) (dict_keys (foldl (\<lambda>d lh. dict_set d (k lh) lh) d xs))) =
   set (takeWhile (\<lambda>q. q \<noteq> r) (dict_keys d @ map k xs))"
proof (induction xs arbitrary: d)
  case Nil
  show ?case by simp
next
  case (Cons x xs)
  have "set (takeWhile (\<lambda>q. q \<noteq> r) (dict_keys (dict_set d (k x) x) @ map k xs)) =
        set (takeWhile (\<lambda>q. q \<noteq> r) (dict_keys d @ k x # map k xs))"
    by (simp add: dict_keys_dict_set set_takeWhile_repeat)
  then show ?case by (simp add: Cons.IH)
qed

lemma lighthouse_keys:
  "set (dict_keys (lighthouses_of t)) = set (map (\<lambda>l. pos_of (lh_Position l)) (turn_Lighthouses t))"
  "set (takeWhile (\<lambda>q. q \<noteq> r) (dict_keys (lighthouses_of t))) =
   set (takeWhile (\<lambda>q. q \<noteq> r) (map (\<lambda>l. pos_of (lh_Position l)) (turn_Lighthouses t)))"
  unfolding lighthouses_of_def
  by (simp_all add: dict_keys_build dict_keys_build_takeWhile dict_keys_Nil)

lemma choose_target_reselect:
  assumes "target self = None \<or> (\<exists>p. target self = Some p \<and> p \<in> set (visited self))"
    and "\<exists>p\<in>set (dict_keys L). p \<notin> set (visited self)"
  shows "\<exists>r. target (choose_target self me L) = Some r
     \<and> r \<in> set (dict_keys L) \<and> r \<notin> set (visited self)
     \<and> (\<forall>q\<in>set (dict_keys L). q \<notin> set (visited self) \<longrightarrow>
           manhattan_distance me r \<le> manhattan_distance me q)
     \<and> (\<forall>q\<in>set (takeWhile (\<lambda>q. q \<noteq> r) (dict_keys L)). q \<notin> set (visited self) \<longrightarrow>
           manhattan_distance me r < manhattan_distance me q)"
proof -
  let ?P = "\<lambda>p. p \<notin> set (visited self)"
  let ?key = "manhattan_distance me"
  from assms(2) have "filter ?P (dict_keys L) \<noteq> []" by (auto simp: filter_empty_conv)
  then obtain p ps where c: "filter ?P (dict_keys L) = p # ps" by (cases "filter ?P (dict_keys L)") auto
  let ?r = "min_from ?key p ps"
  from assms(1) c have tg: "target (choose_target self me L) = Some ?r"
    by (auto simp: choose_target_def Let_def)
  from min_from_first_least(1) [of ?key p ps] have "?r \<in> set (filter ?P (dict_keys L))"
    unfolding c .
  then have r: "?r \<in> set (dict_keys L)" "?P ?r" by auto
  from min_from_first_least(2) [of p ps ?key]
  have least: "\<forall>q\<in>set (dict_keys L). ?P q \<longrightarrow> ?key ?r \<le> ?key q"
    unfolding c [symmetric] by auto
  from min_from_first_least(3) [of ?key p ps]
  have "\<forall>q\<in>set (takeWhile (\<lambda>q. q \<noteq> ?r) (filter ?P (dict_keys L))). ?key ?r < ?key q"
    unfolding c .
  then have first: "\<forall>q\<in>set (takeWhile (\<lambda>q. q \<noteq> ?r) (dict_keys L)). ?P q \<longrightarrow> ?key ?r < ?key q"
    using r(2) by (auto simp: takeWhile_filter_first)
  from tg r least first show ?thesis by blast
qed

lemma uncontested_result:
  assumes "Action (fst (new_turn_action self t)) \<noteq> ATTACK"
  shows "visited (snd (new_turn_action self t)) = visited (settle self t)"
    and "target (snd (new_turn_action self t)) =
           target (choose_target (settle self t) (pos_of (turn_Position t)) (lighthouses_of t))"
    and "fst (new_turn_action self t) =
           move_action (snd (new_turn_action self t)) (X (turn_Position t)) (Y (turn_Position t))"
proof -
  from assms have nc: "\<not> contested self t" by (simp add: attack_iff_contested)
  show "visited (snd (new_turn_action self t)) = visited (settle self t)"
    by (rule visited_new_turn_action)
  from nc show "target (snd (new_turn_action self t)) =
      target (choose_target (settle self t) (pos_of (turn_Position t)) (lighthouses_of t))"
    by (simp add: target_new_turn_action)
  from nc show "fst (new_turn_action self t) =
      move_action (snd (new_turn_action self t)) (X (turn_Position t)) (Y (turn_Position t))"
    by (rule action_uncontested)
qed

text \<open>
  C2, as the code has it. The attack branch returns before any target is chosen, and a
  lighthouse at the bot's position puts that position into \<^verbatim>\<open>visited\<close> before the target
  is looked at. So: when \<^verbatim>\<open>new_turn_action\<close> does not return \<^verbatim>\<open>ATTACK\<close>, the stored target
  is \<^verbatim>\<open>None\<close> or lies in \<^verbatim>\<open>visited\<close> as the call leaves it, and some listed lighthouse
  position lies outside that \<^verbatim>\<open>visited\<close>, the new target is a listed lighthouse position
  outside \<^verbatim>\<open>visited\<close> whose Manhattan distance to the bot's position is minimal among
  these, and it is the first such position in the order of the observation's list: every
  unvisited position listed before it is strictly farther away.
\<close>

theorem reselected_target_first_nearest:
  assumes "Action (fst (new_turn_action self t)) \<noteq> ATTACK"
    and "target self = None \<or>
         (\<exists>p. target self = Some p \<and> p \<in> set (visited (snd (new_turn_action self t))))"
    and "\<exists>lh\<in>set (turn_Lighthouses t).
           pos_of (lh_Position lh) \<notin> set (visited (snd (new_turn_action self t)))"
  shows "\<exists>r. target (snd (new_turn_action self t)) = Some r
     \<and> r \<in> set (map (\<lambda>l. pos_of (lh_Position l)) (turn_Lighthouses t))
     \<and> r \<notin> set (visited (snd (new_turn_action self t)))
     \<and> (\<forall>q\<in>set (map (\<lambda>l. pos_of (lh_Position l)) (turn_Lighthouses t)).
           q \<notin> set (visited (snd (new_turn_action self t))) \<longrightarrow>
           manhattan_distance (pos_of (turn_Position t)) r
             \<le> manhattan_distance (pos_of (turn_Position t)) q)
     \<and> (\<forall>q\<in>set (takeWhile (\<lambda>q. q \<noteq> r)
                    (map (\<lambda>l. pos_of (lh_Position l)) (turn_Lighthouses t))).
           q \<notin> set (visited (snd (new_turn_action self t))) \<longrightarrow>
           manhattan_distance (pos_of (turn_Position t)) r
             < manhattan_distance (pos_of (turn_Position t)) q)"
proof -
  let ?s1 = "settle self t"
  note u = uncontested_result [OF assms(1)]
  have tg: "target ?s1 = target self" by (simp add: settle_frame)
  from assms(2) have a: "target ?s1 = None \<or> (\<exists>p. target ?s1 = Some p \<and> p \<in> set (visited ?s1))"
    unfolding u(1) tg .
  from assms(3) have b: "\<exists>p\<in>set (dict_keys (lighthouses_of t)). p \<notin> set (visited ?s1)"
    unfolding u(1) lighthouse_keys(1) by auto
  from choose_target_reselect [OF a b, of "pos_of (turn_Position t)"]
  show ?thesis unfolding u(1,2) lighthouse_keys .
qed

theorem reselected_target_first_nearest_witness:
  "Action (fst (new_turn_action (BotGame_init (Some 1) :: unit BotGame)
      \<lparr>turn_Position = \<lparr>X = 0, Y = 0\<rparr>, turn_Energy = 10,
       turn_Lighthouses = [\<lparr>lh_Position = \<lparr>X = 0, Y = 4\<rparr>, lh_Owner = 0\<rparr>,
                           \<lparr>lh_Position = \<lparr>X = 3, Y = 0\<rparr>, lh_Owner = 0\<rparr>,
                           \<lparr>lh_Position = \<lparr>X = 0, Y = 3\<rparr>, lh_Owner = 0\<rparr>]\<rparr>)) \<noteq> ATTACK
   \<and> target (BotGame_init (Some 1) :: unit BotGame) = None
   \<and> target (snd (new_turn_action (BotGame_init (Some 1) :: unit BotGame)
      \<lparr>turn_Position = \<lparr>X = 0, Y = 0\<rparr>, turn_Energy = 10,
       turn_Lighthouses = [\<lparr>lh_Position = \<lparr>X = 0, Y = 4\<rparr>, lh_Owner = 0\<rparr>,
                           \<lparr>lh_Position = \<lparr>X = 3, Y = 0\<rparr>, lh_Owner = 0\<rparr>,
                           \<lparr>lh_Position = \<lparr>X = 0, Y = 3\<rparr>, lh_Owner = 0\<rparr>]\<rparr>)) = Some (3, 0)"
proof -
  let ?s = "BotGame_init (Some 1) :: unit BotGame"
  let ?t = "\<lparr>turn_Position = \<lparr>X = 0, Y = 0\<rparr>, turn_Energy = 10,
       turn_Lighthouses = [\<lparr>lh_Position = \<lparr>X = 0, Y = 4\<rparr>, lh_Owner = 0\<rparr>,
                           \<lparr>lh_Position = \<lparr>X = 3, Y = 0\<rparr>, lh_Owner = 0\<rparr>,
                           \<lparr>lh_Position = \<lparr>X = 0, Y = 3\<rparr>, lh_Owner = 0\<rparr>]\<rparr>"
  have v: "visited (snd (new_turn_action ?s ?t)) = []"
    by (simp add: visited_step lh_here_def lighthouses_of_def dict_get_def pos_of_def
          BotGame_init_def)
  have h1: "Action (fst (new_turn_action ?s ?t)) \<noteq> ATTACK"
    by (simp add: attack_iff_contested contested_def lh_here_def lighthouses_of_def
          dict_get_def pos_of_def)
  have h2: "target ?s = None \<or>
      (\<exists>p. target ?s = Some p \<and> p \<in> set (visited (snd (new_turn_action ?s ?t))))"
    by (simp add: BotGame_init_def)
  have h3: "\<exists>lh\<in>set (turn_Lighthouses ?t).
      pos_of (lh_Position lh) \<notin> set (visited (snd (new_turn_action ?s ?t)))"
    unfolding v by auto
  from reselected_target_first_nearest [OF h1 h2 h3]
  obtain r where r: "target (snd (new_turn_action ?s ?t)) = Some r"
    and m: "r \<in> set (map (\<lambda>l. pos_of (lh_Position l)) (turn_Lighthouses ?t))"
    and l: "\<forall>q\<in>set (map (\<lambda>l. pos_of (lh_Position l)) (turn_Lighthouses ?t)).
           q \<notin> set (visited (snd (new_turn_action ?s ?t))) \<longrightarrow>
           manhattan_distance (pos_of (turn_Position ?t)) r
             \<le> manhattan_distance (pos_of (turn_Position ?t)) q"
    and f: "\<forall>q\<in>set (takeWhile (\<lambda>q. q \<noteq> r)
                    (map (\<lambda>l. pos_of (lh_Position l)) (turn_Lighthouses ?t))).
           q \<notin> set (visited (snd (new_turn_action ?s ?t))) \<longrightarrow>
           manhattan_distance (pos_of (turn_Position ?t)) r
             < manhattan_distance (pos_of (turn_Position ?t)) q"
    by blast
  from m have "r = (0, 4) \<or> r = (3, 0) \<or> r = (0, 3)" by (auto simp: pos_of_def)
  then have "r = (3, 0)"
  proof (elim disjE)
    assume "r = (0, 4)"
    with l show ?thesis unfolding v by (simp add: pos_of_def manhattan_distance_def)
  next
    assume "r = (3, 0)"
    then show ?thesis .
  next
    assume "r = (0, 3)"
    with f show ?thesis unfolding v by (simp add: pos_of_def manhattan_distance_def)
  qed
  with r h1 show ?thesis by (simp add: BotGame_init_def)
qed

text \<open>
  The claim in its own words fails on the attack branch: a new bot has no target, the
  lighthouse at (3, 0) lies outside \<^verbatim>\<open>visited\<close> before and after the call, and the bot,
  standing on a lighthouse of player 2, attacks and still has no target.
\<close>

theorem reselection_on_attack_counterexample:
  "target (BotGame_init (Some 1) :: unit BotGame) = None
   \<and> (3, 0) \<in> set (map (\<lambda>l. pos_of (lh_Position l)) (turn_Lighthouses
      \<lparr>turn_Position = \<lparr>X = 0, Y = 0\<rparr>, turn_Energy = 10,
       turn_Lighthouses = [\<lparr>lh_Position = \<lparr>X = 0, Y = 0\<rparr>, lh_Owner = 2\<rparr>,
                           \<lparr>lh_Position = \<lparr>X = 3, Y = 0\<rparr>, lh_Owner = 0\<rparr>]\<rparr>))
   \<and> (3, 0) \<notin> set (visited (BotGame_init (Some 1) :: unit BotGame))
   \<and> (3, 0) \<notin> set (visited (snd (new_turn_action (BotGame_init (Some 1) :: unit BotGame)
      \<lparr>turn_Position = \<lparr>X = 0, Y = 0\<rparr>, turn_Energy = 10,
       turn_Lighthouses = [\<lparr>lh_Position = \<lparr>X = 0, Y = 0\<rparr>, lh_Owner = 2\<rparr>,
                           \<lparr>lh_Position = \<lparr>X = 3, Y = 0\<rparr>, lh_Owner = 0\<rparr>]\<rparr>)))
   \<and> target (snd (new_turn_action (BotGame_init (Some 1) :: unit BotGame)
      \<lparr>turn_Position = \<lparr>X = 0, Y = 0\<rparr>, turn_Energy = 10,
       turn_Lighthouses = [\<lparr>lh_Position = \<lparr>X = 0, Y = 0\<rparr>, lh_Owner = 2\<rparr>,
                           \<lparr>lh_Position = \<lparr>X = 3, Y = 0\<rparr>, lh_Owner = 0\<rparr>]\<rparr>)) = None
   \<and> Action (fst (new_turn_action (BotGame_init (Some 1) :: unit BotGame)
      \<lparr>turn_Position = \<lparr>X = 0, Y = 0\<rparr>, turn_Energy = 10,
       turn_Lighthouses = [\<lparr>lh_Position = \<lparr>X = 0, Y = 0\<rparr>, lh_Owner = 2\<rparr>,
                           \<lparr>lh_Position = \<lparr>X = 3, Y = 0\<rparr>, lh_Owner = 0\<rparr>]\<rparr>)) = ATTACK"
  by (simp add: new_turn_action_def lighthouses_of_def dict_get_def pos_of_def Let_def
        BotGame_init_def record_turn_def deque_append_def visited_maxlen_def)

section \<open>Passing, and a target under the bot\<close>

lemma choose_target_none:
  assumes "target self = None \<or> (\<exists>p. target self = Some p \<and> p \<in> set (visited self))"
    and "\<forall>p\<in>set (dict_keys L). p \<in> set (visited self)"
  shows "target (choose_target self me L) = None"
proof -
  from assms(2) have "filter (\<lambda>p. p \<notin> set (visited self)) (dict_keys L) = []"
    by (simp add: filter_empty_conv)
  with assms(1) show ?thesis by (auto simp: choose_target_def)
qed

lemma choose_target_keep:
  assumes "target self = Some p" and "p \<notin> set (visited self)"
  shows "choose_target self me L = self"
  using assms by (simp add: choose_target_def)

text \<open>
  C5, as the code has it. A target that is stored and not in \<^verbatim>\<open>visited\<close> is kept
  whatever the observation lists, and the bot moves toward it; and \<^verbatim>\<open>visited\<close> is
  read after a lighthouse at the bot's position has put that position into it. So: when
  no contested lighthouse stands at the bot's position, the stored target is \<^verbatim>\<open>None\<close>
  or lies in \<^verbatim>\<open>visited\<close> as the call leaves it, and no listed lighthouse position lies
  outside that \<^verbatim>\<open>visited\<close>, \<^verbatim>\<open>new_turn_action\<close> returns \<^verbatim>\<open>PASS\<close> with the bot's
  position as destination, and the target is \<^verbatim>\<open>None\<close> afterwards.
\<close>

theorem pass_when_nothing_unvisited:
  assumes "\<not> contested self t"
    and "target self = None \<or>
         (\<exists>p. target self = Some p \<and> p \<in> set (visited (snd (new_turn_action self t))))"
    and "\<forall>lh\<in>set (turn_Lighthouses t).
           pos_of (lh_Position lh) \<in> set (visited (snd (new_turn_action self t)))"
  shows "fst (new_turn_action self t) =
           \<lparr>Action = PASS, Destination = turn_Position t, Energy = 0\<rparr>
     \<and> target (snd (new_turn_action self t)) = None"
proof -
  let ?s1 = "settle self t"
  from assms(1) have na: "Action (fst (new_turn_action self t)) \<noteq> ATTACK"
    by (simp add: attack_iff_contested)
  note u = uncontested_result [OF na]
  have tg: "target ?s1 = target self" by (simp add: settle_frame)
  from assms(2) have a: "target ?s1 = None \<or> (\<exists>p. target ?s1 = Some p \<and> p \<in> set (visited ?s1))"
    unfolding u(1) tg .
  from assms(3) have b: "\<forall>p\<in>set (dict_keys (lighthouses_of t)). p \<in> set (visited ?s1)"
    unfolding u(1) lighthouse_keys(1) by auto
  from choose_target_none [OF a b] have n: "target (snd (new_turn_action self t)) = None"
    unfolding u(2) .
  from move_action_pass [OF n] u(3)
  have "fst (new_turn_action self t) =
      \<lparr>Action = PASS, Destination = \<lparr>X = X (turn_Position t), Y = Y (turn_Position t)\<rparr>,
       Energy = 0\<rparr>"
    by simp
  with n show ?thesis by (simp add: Position_eta)
qed

theorem pass_when_nothing_unvisited_witness:
  "\<not> contested
      \<lparr>player_num = Some 1, initial_state = None :: unit option, turn_states = [],
       visited = [(2, 2)], target = Some (2, 2), countT = 5\<rparr>
      \<lparr>turn_Position = \<lparr>X = 2, Y = 2\<rparr>, turn_Energy = 10,
       turn_Lighthouses = [\<lparr>lh_Position = \<lparr>X = 2, Y = 2\<rparr>, lh_Owner = 1\<rparr>]\<rparr>
   \<and> visited (snd (new_turn_action
      \<lparr>player_num = Some 1, initial_state = None :: unit option, turn_states = [],
       visited = [(2, 2)], target = Some (2, 2), countT = 5\<rparr>
      \<lparr>turn_Position = \<lparr>X = 2, Y = 2\<rparr>, turn_Energy = 10,
       turn_Lighthouses = [\<lparr>lh_Position = \<lparr>X = 2, Y = 2\<rparr>, lh_Owner = 1\<rparr>]\<rparr>)) =
       [(2, 2), (2, 2)]
   \<and> fst (new_turn_action
      \<lparr>player_num = Some 1, initial_state = None :: unit option, turn_states = [],
       visited = [(2, 2)], target = Some (2, 2), countT = 5\<rparr>
      \<lparr>turn_Position = \<lparr>X = 2, Y = 2\<rparr>, turn_Energy = 10,
       turn_Lighthouses = [\<lparr>lh_Position = \<lparr>X = 2, Y = 2\<rparr>, lh_Owner = 1\<rparr>]\<rparr>) =
      \<lparr>Action = PASS, Destination = \<lparr>X = 2, Y = 2\<rparr>, Energy = 0\<rparr>
   \<and> target (snd (new_turn_action
      \<lparr>player_num = Some 1, initial_state = None :: unit option, turn_states = [],
       visited = [(2, 2)], target = Some (2, 2), countT = 5\<rparr>
      \<lparr>turn_Position = \<lparr>X = 2, Y = 2\<rparr>, turn_Energy = 10,
       turn_Lighthouses = [\<lparr>lh_Position = \<lparr>X = 2, Y = 2\<rparr>, lh_Owner = 1\<rparr>]\<rparr>)) = None"
proof -
  let ?s = "\<lparr>player_num = Some 1, initial_state = None :: unit option, turn_states = [],
       visited = [(2, 2)], target = Some (2, 2), countT = 5\<rparr>"
  let ?t = "\<lparr>turn_Position = \<lparr>X = 2, Y = 2\<rparr>, turn_Energy = 10,
       turn_Lighthouses = [\<lparr>lh_Position = \<lparr>X = 2, Y = 2\<rparr>, lh_Owner = 1\<rparr>]\<rparr>"
  have v: "visited (snd (new_turn_action ?s ?t)) = [(2, 2), (2, 2)]"
    by (simp add: visited_step lh_here_def lighthouses_of_def dict_get_def pos_of_def
          deque_append_def visited_maxlen_def)
  have h1: "\<not> contested ?s ?t"
    by (simp add: contested_def lh_here_def lighthouses_of_def dict_get_def pos_of_def)
  have h2: "target ?s = None \<or>
      (\<exists>p. target ?s = Some p \<and> p \<in> set (visited (snd (new_turn_action ?s ?t))))"
    unfolding v by simp
  have h3: "\<forall>lh\<in>set (turn_Lighthouses ?t).
      pos_of (lh_Position lh) \<in> set (visited (snd (new_turn_action ?s ?t)))"
    unfolding v by (simp add: pos_of_def)
  from pass_when_nothing_unvisited [OF h1 h2 h3] h1 v show ?thesis by simp
qed

text \<open>
  The claim in its own words fails for a bot that holds a target outside \<^verbatim>\<open>visited\<close>.
  In the first turn of this game the bot stands on its own lighthouse at (0, 0) and takes
  the lighthouse at (9, 9) as target. In the second turn the observation lists the
  lighthouse at (0, 0) only: no listed position lies outside \<^verbatim>\<open>visited\<close>, before or after
  the call, no lighthouse stands at the bot's position (1, 1), and the bot moves on
  toward (9, 9).
\<close>

theorem pass_with_kept_target_counterexample:
  "visited (snd (new_turn_action (BotGame_init (Some 1) :: unit BotGame)
      \<lparr>turn_Position = \<lparr>X = 0, Y = 0\<rparr>, turn_Energy = 10,
       turn_Lighthouses = [\<lparr>lh_Position = \<lparr>X = 0, Y = 0\<rparr>, lh_Owner = 1\<rparr>,
                           \<lparr>lh_Position = \<lparr>X = 9, Y = 9\<rparr>, lh_Owner = 0\<rparr>]\<rparr>)) = [(0, 0)]
   \<and> target (snd (new_turn_action (BotGame_init (Some 1) :: unit BotGame)
      \<lparr>turn_Position = \<lparr>X = 0, Y = 0\<rparr>, turn_Energy = 10,
       turn_Lighthouses = [\<lparr>lh_Position = \<lparr>X = 0, Y = 0\<rparr>, lh_Owner = 1\<rparr>,
                           \<lparr>lh_Position = \<lparr>X = 9, Y = 9\<rparr>, lh_Owner = 0\<rparr>]\<rparr>)) = Some (9, 9)
   \<and> map (\<lambda>l. pos_of (lh_Position l)) (turn_Lighthouses
      \<lparr>turn_Position = \<lparr>X = 1, Y = 1\<rparr>, turn_Energy = 10,
       turn_Lighthouses = [\<lparr>lh_Position = \<lparr>X = 0, Y = 0\<rparr>, lh_Owner = 1\<rparr>]\<rparr>) = [(0, 0)]
   \<and> \<not> contested
      (snd (new_turn_action (BotGame_init (Some 1) :: unit BotGame)
        \<lparr>turn_Position = \<lparr>X = 0, Y = 0\<rparr>, turn_Energy = 10,
         turn_Lighthouses = [\<lparr>lh_Position = \<lparr>X = 0, Y = 0\<rparr>, lh_Owner = 1\<rparr>,
                             \<lparr>lh_Position = \<lparr>X = 9, Y = 9\<rparr>, lh_Owner = 0\<rparr>]\<rparr>))
      \<lparr>turn_Position = \<lparr>X = 1, Y = 1\<rparr>, turn_Energy = 10,
       turn_Lighthouses = [\<lparr>lh_Position = \<lparr>X = 0, Y = 0\<rparr>, lh_Owner = 1\<rparr>]\<rparr>
   \<and> new_turn_action
      (snd (new_turn_action (BotGame_init (Some 1) :: unit BotGame)
        \<lparr>turn_Position = \<lparr>X = 0, Y = 0\<rparr>, turn_Energy = 10,
         turn_Lighthouses = [\<lparr>lh_Position = \<lparr>X = 0, Y = 0\<rparr>, lh_Owner = 1\<rparr>,
                             \<lparr>lh_Position = \<lparr>X = 9, Y = 9\<rparr>, lh_Owner = 0\<rparr>]\<rparr>))
      \<lparr>turn_Position = \<lparr>X = 1, Y = 1\<rparr>, turn_Energy = 10,
       turn_Lighthouses = [\<lparr>lh_Position = \<lparr>X = 0, Y = 0\<rparr>, lh_Owner = 1\<rparr>]\<rparr> =
     (\<lparr>Action = MOVE, Destination = \<lparr>X = 2, Y = 2\<rparr>, Energy = 0\<rparr>,
      \<lparr>player_num = Some 1, initial_state = None, turn_states =
        [\<lparr>turn = \<lparr>turn_Position = \<lparr>X = 0, Y = 0\<rparr>, turn_Energy = 10,
            turn_Lighthouses = [\<lparr>lh_Position = \<lparr>X = 0, Y = 0\<rparr>, lh_Owner = 1\<rparr>,
                                \<lparr>lh_Position = \<lparr>X = 9, Y = 9\<rparr>, lh_Owner = 0\<rparr>]\<rparr>,
          action = \<lparr>Action = MOVE, Destination = \<lparr>X = 1, Y = 1\<rparr>, Energy = 0\<rparr>\<rparr>,
         \<lparr>turn = \<lparr>turn_Position = \<lparr>X = 1, Y = 1\<rparr>, turn_Energy = 10,
            turn_Lighthouses = [\<lparr>lh_Position = \<lparr>X = 0, Y = 0\<rparr>, lh_Owner = 1\<rparr>]\<rparr>,
          action = \<lparr>Action = MOVE, Destination = \<lparr>X = 2, Y = 2\<rparr>, Energy = 0\<rparr>\<rparr>],
       visited = [(0, 0)], target = Some (9, 9), countT = 3\<rparr>)"
  by (simp add: new_turn_action_def lighthouses_of_def dict_get_def dict_keys_def pos_of_def
        Let_def BotGame_init_def choose_target_def move_action_def record_turn_def
        manhattan_distance_def contested_def lh_here_def deque_append_def visited_maxlen_def)

text \<open>
  The second reason for reading \<^verbatim>\<open>visited\<close> after the call: with every lighthouse
  position in a full \<^verbatim>\<open>visited\<close> and the bot on its own lighthouse at (2, 0), the append
  of (2, 0) drops (0, 0), which is then unvisited again, and the bot moves toward it.
\<close>

lemma pass_after_eviction_example:
  "fst (new_turn_action
      \<lparr>player_num = Some 1, initial_state = None :: unit option, turn_states = [],
       visited = [(0, 0), (1, 0), (2, 0)], target = None, countT = 9\<rparr>
      \<lparr>turn_Position = \<lparr>X = 2, Y = 0\<rparr>, turn_Energy = 10,
       turn_Lighthouses = [\<lparr>lh_Position = \<lparr>X = 0, Y = 0\<rparr>, lh_Owner = 1\<rparr>,
                           \<lparr>lh_Position = \<lparr>X = 1, Y = 0\<rparr>, lh_Owner = 1\<rparr>,
                           \<lparr>lh_Position = \<lparr>X = 2, Y = 0\<rparr>, lh_Owner = 1\<rparr>]\<rparr>) =
      \<lparr>Action = MOVE, Destination = \<lparr>X = 1, Y = 0\<rparr>, Energy = 0\<rparr>"
  by (simp add: new_turn_action_def lighthouses_of_def dict_get_def dict_keys_def pos_of_def
        Let_def choose_target_def move_action_def deque_append_def visited_maxlen_def
        manhattan_distance_def)

text \<open>
  C9, as the code has it. A contested lighthouse at the bot's position takes the attack
  branch whatever the target is. So: when the stored target is the bot's exact position,
  no contested lighthouse stands there, and the position is not in \<^verbatim>\<open>visited\<close> as the
  call leaves it (so that the target is not chosen anew), \<^verbatim>\<open>new_turn_action\<close> computes
  the step (0, 0) and returns \<^verbatim>\<open>MOVE\<close> with the bot's position as destination, not
  \<^verbatim>\<open>PASS\<close>; the target stays.
\<close>

theorem move_in_place_on_target:
  assumes "target self = Some (pos_of (turn_Position t))"
    and "\<not> contested self t"
    and "pos_of (turn_Position t) \<notin> set (visited (snd (new_turn_action self t)))"
  shows "fst (new_turn_action self t) =
           \<lparr>Action = MOVE, Destination = turn_Position t, Energy = 0\<rparr>
     \<and> target (snd (new_turn_action self t)) = target self"
proof -
  let ?s1 = "settle self t"
  from assms(2) have na: "Action (fst (new_turn_action self t)) \<noteq> ATTACK"
    by (simp add: attack_iff_contested)
  note u = uncontested_result [OF na]
  have tg: "target ?s1 = Some (pos_of (turn_Position t))"
    using assms(1) by (simp add: settle_frame)
  from assms(3) have nv: "pos_of (turn_Position t) \<notin> set (visited ?s1)"
    unfolding u(1) .
  from choose_target_keep [OF tg nv]
  have k: "target (snd (new_turn_action self t)) = Some (X (turn_Position t), Y (turn_Position t))"
    unfolding u(2) using tg by (simp add: pos_of_def)
  from move_action_step [OF k] u(3)
  have "fst (new_turn_action self t) =
      \<lparr>Action = MOVE, Destination = \<lparr>X = X (turn_Position t), Y = Y (turn_Position t)\<rparr>,
       Energy = 0\<rparr>"
    by simp
  with k assms(1) show ?thesis by (simp add: Position_eta pos_of_def)
qed

theorem move_in_place_on_target_witness:
  "\<not> contested
      \<lparr>player_num = Some 1, initial_state = None :: unit option, turn_states = [],
       visited = [], target = Some (2, 2), countT = 3\<rparr>
      \<lparr>turn_Position = \<lparr>X = 2, Y = 2\<rparr>, turn_Energy = 10,
       turn_Lighthouses = [\<lparr>lh_Position = \<lparr>X = 7, Y = 7\<rparr>, lh_Owner = 0\<rparr>]\<rparr>
   \<and> fst (new_turn_action
      \<lparr>player_num = Some 1, initial_state = None :: unit option, turn_states = [],
       visited = [], target = Some (2, 2), countT = 3\<rparr>
      \<lparr>turn_Position = \<lparr>X = 2, Y = 2\<rparr>, turn_Energy = 10,
       turn_Lighthouses = [\<lparr>lh_Position = \<lparr>X = 7, Y = 7\<rparr>, lh_Owner = 0\<rparr>]\<rparr>) =
      \<lparr>Action = MOVE, Destination = \<lparr>X = 2, Y = 2\<rparr>, Energy = 0\<rparr>
   \<and> target (snd (new_turn_action
      \<lparr>player_num = Some 1, initial_state = None :: unit option, turn_states = [],
       visited = [], target = Some (2, 2), countT = 3\<rparr>
      \<lparr>turn_Position = \<lparr>X = 2, Y = 2\<rparr>, turn_Energy = 10,
       turn_Lighthouses = [\<lparr>lh_Position = \<lparr>X = 7, Y = 7\<rparr>, lh_Owner = 0\<rparr>]\<rparr>)) = Some (2, 2)"
proof -
  let ?s = "\<lparr>player_num = Some 1, initial_state = None :: unit option, turn_states = [],
       visited = [], target = Some (2, 2), countT = 3\<rparr>"
  let ?t = "\<lparr>turn_Position = \<lparr>X = 2, Y = 2\<rparr>, turn_Energy = 10,
       turn_Lighthouses = [\<lparr>lh_Position = \<lparr>X = 7, Y = 7\<rparr>, lh_Owner = 0\<rparr>]\<rparr>"
  have v: "visited (snd (new_turn_action ?s ?t)) = []"
    by (simp add: visited_step lh_here_def lighthouses_of_def dict_get_def pos_of_def)
  have h1: "target ?s = Some (pos_of (turn_Position ?t))" by (simp add: pos_of_def)
  have h2: "\<not> contested ?s ?t"
    by (simp add: contested_def lh_here_def lighthouses_of_def dict_get_def pos_of_def)
  have h3: "pos_of (turn_Position ?t) \<notin> set (visited (snd (new_turn_action ?s ?t)))"
    unfolding v by simp
  from move_in_place_on_target [OF h1 h2 h3] h2 show ?thesis by simp
qed

text \<open>
  The claim in its own words fails on the attack branch. In the first turn of this game
  the bot takes the lighthouse of player 2 at (5, 5) as target and moves onto it. In the
  second turn its target is its position; the target is not chosen anew, it is still
  (5, 5) after the call, and the action is \<^verbatim>\<open>ATTACK\<close>, not \<^verbatim>\<open>MOVE\<close>.
\<close>

theorem attack_on_target_counterexample:
  "target (snd (new_turn_action (BotGame_init (Some 1) :: unit BotGame)
      \<lparr>turn_Position = \<lparr>X = 4, Y = 5\<rparr>, turn_Energy = 10,
       turn_Lighthouses = [\<lparr>lh_Position = \<lparr>X = 5, Y = 5\<rparr>, lh_Owner = 2\<rparr>]\<rparr>)) =
     Some (pos_of (turn_Position
      \<lparr>turn_Position = \<lparr>X = 5, Y = 5\<rparr>, turn_Energy = 10,
       turn_Lighthouses = [\<lparr>lh_Position = \<lparr>X = 5, Y = 5\<rparr>, lh_Owner = 2\<rparr>]\<rparr>))
   \<and> new_turn_action
      (snd (new_turn_action (BotGame_init (Some 1) :: unit BotGame)
        \<lparr>turn_Position = \<lparr>X = 4, Y = 5\<rparr>, turn_Energy = 10,
         turn_Lighthouses = [\<lparr>lh_Position = \<lparr>X = 5, Y = 5\<rparr>, lh_Owner = 2\<rparr>]\<rparr>))
      \<lparr>turn_Position = \<lparr>X = 5, Y = 5\<rparr>, turn_Energy = 10,
       turn_Lighthouses = [\<lparr>lh_Position = \<lparr>X = 5, Y = 5\<rparr>, lh_Owner = 2\<rparr>]\<rparr> =
     (\<lparr>Action = ATTACK, Destination = \<lparr>X = 5, Y = 5\<rparr>, Energy = 10\<rparr>,
      \<lparr>player_num = Some 1, initial_state = None, turn_states =
        [\<lparr>turn = \<lparr>turn_Position = \<lparr>X = 4, Y = 5\<rparr>, turn_Energy = 10,
            turn_Lighthouses = [\<lparr>lh_Position = \<lparr>X = 5, Y = 5\<rparr>, lh_Owner = 2\<rparr>]\<rparr>,
          action = \<lparr>Action = MOVE, Destination = \<lparr>X = 5, Y = 5\<rparr>, Energy = 0\<rparr>\<rparr>,
         \<lparr>turn = \<lparr>turn_Position = \<lparr>X = 5, Y = 5\<rparr>, turn_Energy = 10,
            turn_Lighthouses = [\<lparr>lh_Position = \<lparr>X = 5, Y = 5\<rparr>, lh_Owner = 2\<rparr>]\<rparr>,
          action = \<lparr>Action = ATTACK, Destination = \<lparr>X = 5, Y = 5\<rparr>, Energy = 10\<rparr>\<rparr>],
       visited = [(5, 5)], target = Some (5, 5), countT = 3\<rparr>)"
  by (simp add: new_turn_action_def lighthouses_of_def dict_get_def dict_keys_def pos_of_def
        Let_def BotGame_init_def choose_target_def move_action_def record_turn_def
        manhattan_distance_def deque_append_def visited_maxlen_def)

section \<open>The join loop\<close>

lemma join_after_failures:
  assumes "\<forall>i<n. server (calls j + i) = Raised RpcError"
    and "server (calls j + n) = Returned pid"
  shows "wait_to_join_game server j =
           Some (Inr (j\<lparr>coms := (coms j)\<lparr>bot_id := Some pid\<rparr>, calls := calls j + n + 1,
                        slept := slept j + n\<rparr>))"
  using assms
proof (induction n arbitrary: j)
  case 0
  then show ?case
    by (subst wait_to_join_game.simps) (simp add: join_attempt_def)
next
  case (Suc n)
  let ?j = "j\<lparr>calls := calls j + 1, slept := slept j + 1\<rparr>"
  from Suc.prems(1) have "server (calls j + 0) = Raised RpcError" by blast
  then have f0: "server (calls j) = Raised RpcError" by simp
  have "\<forall>i<n. server (calls ?j + i) = Raised RpcError"
  proof (intro allI impI)
    fix i assume "i < n"
    then have "Suc i < Suc n" by simp
    with Suc.prems(1) have "server (calls j + Suc i) = Raised RpcError" by blast
    then show "server (calls ?j + i) = Raised RpcError" by simp
  qed
  moreover have "server (calls ?j + n) = Returned pid"
    using Suc.prems(2) by simp
  ultimately have "wait_to_join_game server ?j =
      Some (Inr (?j\<lparr>coms := (coms ?j)\<lparr>bot_id := Some pid\<rparr>, calls := calls ?j + n + 1,
                    slept := slept ?j + n\<rparr>))"
    by (rule Suc.IH)
  moreover have "wait_to_join_game server j = wait_to_join_game server ?j"
    by (subst wait_to_join_game.simps) (simp add: join_attempt_def f0)
  ultimately show ?case by simp
qed

lemma join_result:
  assumes "wait_to_join_game server j = Some r"
  shows "\<exists>n. (\<forall>i<n. server (calls j + i) = Raised RpcError)
     \<and> (case server (calls j + n) of
          Returned pid \<Rightarrow>
            r = Inr (j\<lparr>coms := (coms j)\<lparr>bot_id := Some pid\<rparr>, calls := calls j + n + 1,
                       slept := slept j + n\<rparr>)
        | Raised e \<Rightarrow> e \<noteq> RpcError \<and> r = Inl e)"
  using assms
proof (induction server j r rule: wait_to_join_game.raw_induct [rotated 1, consumes 1])
  case (1 f server j r)
  show ?case
  proof (cases "server (calls j)")
    case (Returned pid)
    with 1(2) have "r = Inr (j\<lparr>coms := (coms j)\<lparr>bot_id := Some pid\<rparr>, calls := calls j + 0 + 1,
                       slept := slept j + 0\<rparr>)"
      by (simp add: join_attempt_def)
    with Returned show ?thesis by (intro exI [of _ 0]) simp
  next
    case (Raised e)
    show ?thesis
    proof (cases e)
      case RpcError
      let ?j = "j\<lparr>calls := calls j + 1, slept := slept j + 1\<rparr>"
      from 1(2) Raised RpcError have "f server ?j = Some r" by (simp add: join_attempt_def)
      from 1(1) [OF this] obtain n where ab: "(\<forall>i<n. server (calls ?j + i) = Raised RpcError)
        \<and> (case server (calls ?j + n) of
          Returned pid \<Rightarrow>
            r = Inr (?j\<lparr>coms := (coms ?j)\<lparr>bot_id := Some pid\<rparr>, calls := calls ?j + n + 1,
                       slept := slept ?j + n\<rparr>)
        | Raised e \<Rightarrow> e \<noteq> RpcError \<and> r = Inl e)" ..
      note a = ab [THEN conjunct1] and b = ab [THEN conjunct2]
      have "\<forall>i<Suc n. server (calls j + i) = Raised RpcError"
      proof (intro allI impI)
        fix i assume "i < Suc n"
        show "server (calls j + i) = Raised RpcError"
        proof (cases i)
          case 0
          with Raised RpcError show ?thesis by simp
        next
          case (Suc k)
          with \<open>i < Suc n\<close> a have "server (calls ?j + k) = Raised RpcError" by simp
          with Suc show ?thesis by simp
        qed
      qed
      moreover from b have "case server (calls j + Suc n) of
          Returned pid \<Rightarrow>
            r = Inr (j\<lparr>coms := (coms j)\<lparr>bot_id := Some pid\<rparr>, calls := calls j + Suc n + 1,
                       slept := slept j + Suc n\<rparr>)
        | Raised e \<Rightarrow> e \<noteq> RpcError \<and> r = Inl e"
        by (simp split: join_outcome.splits)
      ultimately show ?thesis by blast
    next
      case OtherError
      with 1(2) Raised have "r = Inl e" by (simp add: join_attempt_def)
      with Raised OtherError show ?thesis by (intro exI [of _ 0]) simp
    qed
  qed
qed

lemma play_player_num: "player_num (play self ts) = player_num self"
proof (induction ts arbitrary: self)
  case Nil
  show ?case by simp
next
  case (Cons t ts)
  have "player_num (snd (new_turn_action self t)) = player_num self"
    by (cases "contested self t")
       (simp_all add: new_turn_action_contested new_turn_action_uncontested Let_def
          record_turn_def choose_target_frame settle_frame)
  then show ?case by (simp add: Cons.IH)
qed

text \<open>
  C8. The loop of \<^verbatim>\<open>wait_to_join_game\<close>, one \<^verbatim>\<open>Join\<close> call for each pass. Every call that
  raises \<^verbatim>\<open>RpcError\<close> is followed by a sleep of one second and another call, with no
  bound on their number: after n failed calls and a successful one the loop has made
  n + 1 calls, slept n seconds, and stored the returned identifier as \<^verbatim>\<open>bot_id\<close>;
  against a server whose every call fails it never ends. \<^verbatim>\<open>RpcError\<close> never leaves the
  loop as an exception. The loop ends normally only through a successful call, with the
  identifier of that call stored. The identifier then stays: the decision engine of the
  session is created with it and no turn changes it.
\<close>

theorem join_retries_until_success:
  "((\<forall>i<n. server (calls j + i) = Raised RpcError) \<and> server (calls j + n) = Returned pid \<longrightarrow>
      wait_to_join_game server j =
        Some (Inr (j\<lparr>coms := (coms j)\<lparr>bot_id := Some pid\<rparr>, calls := calls j + n + 1,
                     slept := slept j + n\<rparr>)))
   \<and> ((\<forall>i. server (calls j + i) = Raised RpcError) \<longrightarrow> wait_to_join_game server j = None)
   \<and> wait_to_join_game server j \<noteq> Some (Inl RpcError)
   \<and> (\<forall>j'. wait_to_join_game server j = Some (Inr j') \<longrightarrow>
        (\<exists>m p. (\<forall>i<m. server (calls j + i) = Raised RpcError)
           \<and> server (calls j + m) = Returned p
           \<and> bot_id (coms j') = Some p \<and> calls j' = calls j + m + 1
           \<and> slept j' = slept j + m))
   \<and> player_num (play (ClientServer_init c :: 'i BotGame) ts) = bot_id c"
proof (intro conjI impI allI)
  assume "(\<forall>i<n. server (calls j + i) = Raised RpcError) \<and> server (calls j + n) = Returned pid"
  then show "wait_to_join_game server j =
      Some (Inr (j\<lparr>coms := (coms j)\<lparr>bot_id := Some pid\<rparr>, calls := calls j + n + 1,
                   slept := slept j + n\<rparr>))"
    by (intro join_after_failures) simp_all
next
  assume all: "\<forall>i. server (calls j + i) = Raised RpcError"
  show "wait_to_join_game server j = None"
  proof (cases "wait_to_join_game server j")
    case None
    then show ?thesis .
  next
    case (Some r)
    from join_result [OF Some] obtain m where
      ab: "(\<forall>i<m. server (calls j + i) = Raised RpcError)
       \<and> (case server (calls j + m) of
          Returned pid \<Rightarrow>
            r = Inr (j\<lparr>coms := (coms j)\<lparr>bot_id := Some pid\<rparr>, calls := calls j + m + 1,
                       slept := slept j + m\<rparr>)
        | Raised e \<Rightarrow> e \<noteq> RpcError \<and> r = Inl e)" ..
    moreover from all have "server (calls j + m) = Raised RpcError" ..
    ultimately show ?thesis by simp
  qed
next
  show "wait_to_join_game server j \<noteq> Some (Inl RpcError)"
  proof
    assume "wait_to_join_game server j = Some (Inl RpcError)"
    from join_result [OF this] show False
      by (elim exE conjE) (simp split: join_outcome.split_asm)
  qed
next
  fix j'
  assume "wait_to_join_game server j = Some (Inr j')"
  from join_result [OF this] obtain m where fr:
    "(\<forall>i<m. server (calls j + i) = Raised RpcError)
     \<and> (case server (calls j + m) of
          Returned pid \<Rightarrow>
            (Inr j' :: exn + joining) =
              Inr (j\<lparr>coms := (coms j)\<lparr>bot_id := Some pid\<rparr>,
                     calls := calls j + m + 1, slept := slept j + m\<rparr>)
        | Raised e \<Rightarrow> e \<noteq> RpcError \<and> (Inr j' :: exn + joining) = Inl e)" ..
  note f = fr [THEN conjunct1] and r = fr [THEN conjunct2]
  from r obtain p where p: "server (calls j + m) = Returned p"
    and j': "j' = j\<lparr>coms := (coms j)\<lparr>bot_id := Some p\<rparr>, calls := calls j + m + 1,
                   slept := slept j + m\<rparr>"
    by (cases "server (calls j + m)") simp_all
  from j' have "bot_id (coms j') = Some p" "calls j' = calls j + m + 1" "slept j' = slept j + m"
    by simp_all
  with f p show "\<exists>m p. (\<forall>i<m. server (calls j + i) = Raised RpcError)
           \<and> server (calls j + m) = Returned p
           \<and> bot_id (coms j') = Some p \<and> calls j' = calls j + m + 1
           \<and> slept j' = slept j + m"
    by blast
next
  show "player_num (play (ClientServer_init c :: 'i BotGame) ts) = bot_id c"
    by (simp add: play_player_num ClientServer_init_def BotGame_init_def)
qed

theorem join_retries_until_success_witness:
  "wait_to_join_game (\<lambda>i. if i < 2 then Raised RpcError else Returned 7)
      \<lparr>coms = \<lparr>bot_id = None, bot_name = ''random-bot'', my_address = ''bot:3001'',
               game_server_address = ''game:50051'', verbose = False\<rparr>,
       calls = 0, slept = 0\<rparr> =
     Some (Inr \<lparr>coms = \<lparr>bot_id = Some 7, bot_name = ''random-bot'', my_address = ''bot:3001'',
                        game_server_address = ''game:50051'', verbose = False\<rparr>,
                calls = 3, slept = 2\<rparr>)
   \<and> wait_to_join_game (\<lambda>i. Raised RpcError)
      \<lparr>coms = \<lparr>bot_id = None, bot_name = ''random-bot'', my_address = ''bot:3001'',
               game_server_address = ''game:50051'', verbose = False\<rparr>,
       calls = 0, slept = 0\<rparr> = None"
proof -
  let ?j = "\<lparr>coms = \<lparr>bot_id = None, bot_name = ''random-bot'', my_address = ''bot:3001'',
               game_server_address = ''game:50051'', verbose = False\<rparr>,
       calls = 0, slept = 0\<rparr>"
  let ?server = "\<lambda>i::nat. if i < 2 then Raised RpcError else Returned 7"
  let ?down = "\<lambda>i::nat. Raised RpcError"
  have h: "(\<forall>i<2. ?server (calls ?j + i) = Raised RpcError) \<and> ?server (calls ?j + 2) = Returned 7"
    by simp
  note a = join_retries_until_success [of 2 ?server ?j 7, THEN conjunct1, THEN mp, OF h]
  have d: "\<forall>i. ?down (calls ?j + i) = Raised RpcError" by simp
  note b = join_retries_until_success [of _ ?down ?j, THEN conjunct2, THEN conjunct1,
      THEN mp, OF d]
  from a b show ?thesis by simp
qed

end
